theory Spec2Isabelle
  imports Main "HOL-Library.Multiset"
begin

section \<open>JavaScript values used by the bot\<close>

text \<open>
  The expressions the listing code compares are strings that may also be \<open>undefined\<close>
  (the result of \<open>?.\<close> on a missing object) or \<open>null\<close> (a JSON null of the GraphQL
  answer). \<open>===\<close> on such values is structural equality of this datatype.
  A string is a list of characters, each standing for one UTF-16 code unit, so that
  \<open>length\<close> is the JavaScript \<open>.length\<close>.
\<close>

datatype jsstr = Undefined | Null | Str string

definition truthy :: "jsstr \<Rightarrow> bool" where
  "truthy v = (case v of Str s \<Rightarrow> s \<noteq> [] | _ \<Rightarrow> False)"

section \<open>Content validation: \<open>IssueSchema\<close> and \<open>validateAIResponse\<close> (openai-utils.js)\<close>

text \<open>
  What \<open>JSON.parse\<close> returns. An object is the list of its properties, one entry per
  key; the validator never reads the value of a number.
\<close>

datatype json =
    JNull
  | JBool bool
  | JNum int
  | JStr string
  | JArr "json list"
  | JObj "(string \<times> json) list"

text \<open>
  A schema failure is reported by the schema library as a path into the value and a
  code; \<open>Required\<close> is the library's message for an input that is \<open>undefined\<close>.
\<close>

datatype path_seg = Idx nat | Key string

datatype zod_code = Required | InvalidType | TooSmall | TooBig

record zod_issue =
  zi_path :: "path_seg list"
  zi_code :: zod_code

datatype js_error =
    TypeError
  | SyntaxError
  | ValidationFailed "zod_issue list"
  | TransportError
  | TrackerError
  | CompletionError

definition zissue :: "path_seg list \<Rightarrow> zod_code \<Rightarrow> zod_issue" where
  "zissue p c = \<lparr>zi_path = p, zi_code = c\<rparr>"

text \<open>
  The schema combinators the source uses, as the schema library evaluates them. The
  input of a schema is \<open>None\<close> when it is \<open>undefined\<close> (a missing property). A schema
  returns the parsed value, or every failure found below it.

  \<open>z.string().min(lo).max(hi)\<close>: the input is a string; each violated bound adds a
  failure.
\<close>

definition z_string ::
  "nat \<Rightarrow> nat option \<Rightarrow> path_seg list \<Rightarrow> json option \<Rightarrow> zod_issue list + string" where
  "z_string lo hi p v =
     (case v of
        None \<Rightarrow> Inl [zissue p Required]
      | Some (JStr s) \<Rightarrow>
          (let small = (if length s < lo then [zissue p TooSmall] else []);
               big = (case hi of None \<Rightarrow> []
                      | Some h \<Rightarrow> if h < length s then [zissue p TooBig] else [])
           in if small @ big = [] then Inr s else Inl (small @ big))
      | Some _ \<Rightarrow> Inl [zissue p InvalidType])"

text \<open>
  \<open>z.array(element)\<close>: the input is an array; every element is parsed under its index,
  and one failing element fails the array, with the failures of all elements.
\<close>

fun parse_elements ::
  "(path_seg list \<Rightarrow> json option \<Rightarrow> zod_issue list + 'a) \<Rightarrow> path_seg list \<Rightarrow> nat \<Rightarrow> json list
     \<Rightarrow> (zod_issue list + 'a) list" where
  "parse_elements element p i [] = []"
| "parse_elements element p i (x # xs) =
     element (p @ [Idx i]) (Some x) # parse_elements element p (Suc i) xs"

fun mergeArray :: "(zod_issue list + 'a) list \<Rightarrow> zod_issue list + 'a list" where
  "mergeArray [] = Inr []"
| "mergeArray (r # rs) =
     (case r of
        Inr v \<Rightarrow> (case mergeArray rs of Inr vs \<Rightarrow> Inr (v # vs) | Inl es \<Rightarrow> Inl es)
      | Inl e \<Rightarrow> (case mergeArray rs of Inr vs \<Rightarrow> Inl e | Inl es \<Rightarrow> Inl (e @ es)))"

definition z_array ::
  "(path_seg list \<Rightarrow> json option \<Rightarrow> zod_issue list + 'a) \<Rightarrow> path_seg list \<Rightarrow> json option
     \<Rightarrow> zod_issue list + 'a list" where
  "z_array element p v =
     (case v of
        None \<Rightarrow> Inl [zissue p Required]
      | Some (JArr xs) \<Rightarrow> mergeArray (parse_elements element p 0 xs)
      | Some _ \<Rightarrow> Inl [zissue p InvalidType])"

text \<open>\<open>inner.default(d)\<close>: an \<open>undefined\<close> input is replaced by \<open>d\<close>, which the inner schema then parses.\<close>

definition z_default ::
  "json \<Rightarrow> (path_seg list \<Rightarrow> json option \<Rightarrow> zod_issue list + 'a) \<Rightarrow> path_seg list \<Rightarrow> json option
     \<Rightarrow> zod_issue list + 'a" where
  "z_default d inner p v = inner p (Some (case v of None \<Rightarrow> d | Some x \<Rightarrow> x))"

text \<open>A Generated Issue: the output of the object schema, which keeps its three keys only.\<close>

record issue =
  title :: string
  body :: string
  labels :: "string list"

text \<open>
  How the object schema merges the results of its properties: the failures of all of
  them, or the object of their values.
\<close>

fun failures :: "zod_issue list + 'a \<Rightarrow> zod_issue list" where
  "failures (Inl es) = es"
| "failures (Inr v) = []"

definition mergeObject ::
  "zod_issue list + string \<Rightarrow> zod_issue list + string \<Rightarrow> zod_issue list + string list
     \<Rightarrow> zod_issue list + issue" where
  "mergeObject t b l =
     (if isl t \<or> isl b \<or> isl l then Inl (failures t @ failures b @ failures l)
      else Inr \<lparr>title = projr t, body = projr b, labels = projr l\<rparr>)"

text \<open>
  The object schema of \<open>IssueSchema\<close>: \<open>title: z.string().min(10)\<close>,
  \<open>body: z.string().min(100)\<close>,
  \<open>labels: z.array(z.string().min(2).max(20)).default([])\<close>. The input is an object
  (not null, not an array); the three properties are parsed in this order.
\<close>

definition issue_object :: "path_seg list \<Rightarrow> json option \<Rightarrow> zod_issue list + issue" where
  "issue_object p v =
     (case v of
        None \<Rightarrow> Inl [zissue p Required]
      | Some (JObj kvs) \<Rightarrow>
          mergeObject
            (z_string 10 None (p @ [Key ''title'']) (map_of kvs ''title''))
            (z_string 100 None (p @ [Key ''body'']) (map_of kvs ''body''))
            (z_default (JArr []) (z_array (z_string 2 (Some 20)))
               (p @ [Key ''labels'']) (map_of kvs ''labels''))
      | Some _ \<Rightarrow> Inl [zissue p InvalidType])"

text \<open>\<open>IssueSchema.safeParse\<close>: the array schema over the object schema, at the empty path.\<close>

definition IssueSchema_safeParse :: "json option \<Rightarrow> zod_issue list + issue list" where
  "IssueSchema_safeParse v = z_array issue_object [] v"

text \<open>
  \<open>rawData.issues\<close>: reading a property of \<open>null\<close> throws a TypeError; an object gives
  the property or \<open>undefined\<close>; no other JSON value has a property \<open>issues\<close>.
\<close>

definition get_issues :: "json \<Rightarrow> js_error + json option" where
  "get_issues rawData =
     (case rawData of
        JNull \<Rightarrow> Inl TypeError
      | JObj kvs \<Rightarrow> Inr (map_of kvs ''issues'')
      | _ \<Rightarrow> Inr None)"

text \<open>
  \<open>validateAIResponse(content)\<close>. \<open>JSON.parse\<close> is the runtime's and is a parameter:
  \<open>None\<close> is its SyntaxError. A schema failure is thrown as one \<open>Error\<close> whose message
  lists every failure; on success the parsed issues are returned.
\<close>

definition validateAIResponse :: "(string \<Rightarrow> json option) \<Rightarrow> string \<Rightarrow> js_error + issue list" where
  "validateAIResponse JSON_parse content =
     (case JSON_parse content of
        None \<Rightarrow> Inl SyntaxError
      | Some rawData \<Rightarrow>
          (case get_issues rawData of
             Inl e \<Rightarrow> Inl e
           | Inr candidates \<Rightarrow>
               (case IssueSchema_safeParse candidates of
                  Inl errors \<Rightarrow> Inl (ValidationFailed errors)
                | Inr data \<Rightarrow> Inr data)))"

text \<open>
  The contract of the validator in the specification's words: a candidate needs a
  title of at least 10 characters, a body of at least 100 characters, and a labels
  collection whose labels have between 2 and 20 characters, a missing collection
  counting as empty.
\<close>

definition is_label :: "json \<Rightarrow> bool" where
  "is_label l = (case l of JStr s \<Rightarrow> 2 \<le> length s \<and> length s \<le> 20 | _ \<Rightarrow> False)"

definition is_text_of_min :: "nat \<Rightarrow> json option \<Rightarrow> bool" where
  "is_text_of_min n v = (case v of Some (JStr s) \<Rightarrow> n \<le> length s | _ \<Rightarrow> False)"

definition conforms :: "json \<Rightarrow> bool" where
  "conforms c =
     (case c of
        JObj kvs \<Rightarrow>
          is_text_of_min 10 (map_of kvs ''title'') \<and>
          is_text_of_min 100 (map_of kvs ''body'') \<and>
          (case map_of kvs ''labels'' of
             None \<Rightarrow> True
           | Some (JArr ls) \<Rightarrow> list_all is_label ls
           | Some _ \<Rightarrow> False)
      | _ \<Rightarrow> False)"

text \<open>The validated issues written back as the JSON document the validator reads.\<close>

definition issue_json :: "issue \<Rightarrow> json" where
  "issue_json i =
     JObj [(''title'', JStr (title i)), (''body'', JStr (body i)),
           (''labels'', JArr (map JStr (labels i)))]"

definition issues_document :: "issue list \<Rightarrow> json" where
  "issues_document out = JObj [(''issues'', JArr (map issue_json out))]"

text \<open>What every validated issue satisfies.\<close>

definition well_formed :: "issue \<Rightarrow> bool" where
  "well_formed i \<longleftrightarrow> 10 \<le> length (title i) \<and> 100 \<le> length (body i) \<and>
     (\<forall>l\<in>set (labels i). 2 \<le> length l \<and> length l \<le> 20)"

text \<open>
  Example documents: a candidate that meets the contract, the specification's candidate
  with a title of 9 characters, a candidate with a key the schema does not know and
  without labels, and a parser that knows three texts.
\<close>

definition long_body :: string where
  "long_body = replicate 100 (CHR ''x'')"

definition good_candidate :: json where
  "good_candidate =
     JObj [(''title'', JStr ''Crash on login''), (''body'', JStr long_body),
           (''labels'', JArr [JStr ''bug''])]"

definition short_title_candidate :: json where
  "short_title_candidate =
     JObj [(''title'', JStr ''123456789''), (''body'', JStr long_body), (''labels'', JArr [])]"

definition loose_candidate :: json where
  "loose_candidate =
     JObj [(''title'', JStr ''Slow dashboard''), (''priority'', JNum 1), (''body'', JStr long_body)]"

definition loose_issue :: issue where
  "loose_issue = \<lparr>title = ''Slow dashboard'', body = long_body, labels = []\<rparr>"

definition sample_parse :: "string \<Rightarrow> json option" where
  "sample_parse s =
     (if s = ''mixed'' then Some (JObj [(''issues'', JArr [good_candidate, short_title_candidate])])
      else if s = ''loose'' then Some (JObj [(''issues'', JArr [loose_candidate])])
      else if s = ''again'' then Some (issues_document [loose_issue])
      else None)"

section \<open>Committing issues: \<open>createIssues\<close> (github-utils.js)\<close>

text \<open>
  The Collected Asset Bundle of a session: the text fragments and the image references
  in the order they were collected, and the slot the review step stores the generated
  issues in (\<open>assets.generatedIssues\<close>).
\<close>

record assets =
  asset_text :: "string list"
  asset_images :: "string list"
  asset_generatedIssues :: "issue list option"

text \<open>The owner and the repository come from the process environment.\<close>

record env =
  GITHUB_REPO_OWNER :: string
  GITHUB_REPO_NAME :: string

text \<open>The argument of \<open>octokit.issues.create\<close> and the \<open>data\<close> of its answer.\<close>

record create_request =
  req_owner :: string
  req_repo :: string
  req_title :: string
  req_body :: string
  req_labels :: "string list"

record created_issue =
  ci_number :: nat
  ci_html_url :: string
  ci_title :: string

text \<open>
  The tracker is an external service. It is modelled by what it holds: the issues that
  exist in it (\<open>persisted\<close>) and every creation call it has received (\<open>calls\<close>). How it
  answers is a parameter: \<open>api n req\<close> is its answer to call number \<open>n\<close> (counted from
  0) with argument \<open>req\<close>, \<open>None\<close> when that call fails.
\<close>

record tracker =
  persisted :: "create_request list"
  calls :: "create_request list"

type_synonym tracker_api = "nat \<Rightarrow> create_request \<Rightarrow> created_issue option"

definition octokit_issues_create ::
  "tracker_api \<Rightarrow> tracker \<Rightarrow> create_request \<Rightarrow> (js_error + created_issue) \<times> tracker" where
  "octokit_issues_create api tr req =
     (case api (length (calls tr)) req of
        None \<Rightarrow> (Inl TrackerError, tr\<lparr>calls := calls tr @ [req]\<rparr>)
      | Some data \<Rightarrow>
          (Inr data, tr\<lparr>calls := calls tr @ [req], persisted := persisted tr @ [req]\<rparr>))"

text \<open>\<open>strings.join(sep)\<close>.\<close>

fun join :: "string \<Rightarrow> string list \<Rightarrow> string" where
  "join sep [] = []"
| "join sep [s] = s"
| "join sep (s # t # ts) = s @ sep @ join sep (t # ts)"

definition newline :: string where
  "newline = [CHR 0x0A]"

text \<open>The template \<open>![image](${url})\<close> and the body the source builds for an issue.\<close>

definition image_link :: "string \<Rightarrow> string" where
  "image_link url = ''![image]('' @ url @ '')''"

definition issue_request :: "env \<Rightarrow> assets \<Rightarrow> issue \<Rightarrow> create_request" where
  "issue_request e a i =
     \<lparr>req_owner = GITHUB_REPO_OWNER e,
      req_repo = GITHUB_REPO_NAME e,
      req_title = title i,
      req_body = body i @ newline @ newline @ join newline (map image_link (asset_images a)),
      req_labels = labels i\<rparr>"

text \<open>
  The loop of \<open>createIssues\<close>: one call per issue, in the order of the array; the
  \<open>catch\<close> logs and rethrows, so the first failing call ends the loop with its error,
  and the issues collected so far are lost to the caller but stay in the tracker.
\<close>

fun create_loop ::
  "tracker_api \<Rightarrow> env \<Rightarrow> assets \<Rightarrow> issue list \<Rightarrow> created_issue list \<Rightarrow> tracker
     \<Rightarrow> (js_error + created_issue list) \<times> tracker" where
  "create_loop api e a [] createdIssues tr = (Inr createdIssues, tr)"
| "create_loop api e a (i # rest) createdIssues tr =
     (case octokit_issues_create api tr (issue_request e a i) of
        (Inl error, tr') \<Rightarrow> (Inl error, tr')
      | (Inr data, tr') \<Rightarrow> create_loop api e a rest (createdIssues @ [data]) tr')"

definition createIssues ::
  "tracker_api \<Rightarrow> env \<Rightarrow> issue list \<Rightarrow> assets \<Rightarrow> tracker
     \<Rightarrow> (js_error + created_issue list) \<times> tracker" where
  "createIssues api e issues a tr = create_loop api e a issues [] tr"

text \<open>
  A tracker that has seen nothing, and one whose call number 1 (the second) fails;
  a batch of three issues and a bundle with two images.
\<close>

definition fresh_tracker :: tracker where
  "fresh_tracker = \<lparr>persisted = [], calls = []\<rparr>"

definition second_call_fails :: tracker_api where
  "second_call_fails n req =
     (if n = 1 then None
      else Some \<lparr>ci_number = Suc n, ci_html_url = ''https://tracker/issue'', ci_title = req_title req\<rparr>)"

definition always_answers :: tracker_api where
  "always_answers n req =
     Some \<lparr>ci_number = Suc n, ci_html_url = ''https://tracker/issue'', ci_title = req_title req\<rparr>"

definition sample_env :: env where
  "sample_env = \<lparr>GITHUB_REPO_OWNER = ''acme'', GITHUB_REPO_NAME = ''app''\<rparr>"

definition sample_issue :: "string \<Rightarrow> issue" where
  "sample_issue t = \<lparr>title = t, body = ''Body of '' @ t, labels = [''bug'']\<rparr>"

definition three_issues :: "issue list" where
  "three_issues = [sample_issue ''first issue'', sample_issue ''second issue'', sample_issue ''third issue'']"

definition two_images :: assets where
  "two_images = \<lparr>asset_text = [''it crashes''], asset_images = [''u1'', ''u2''],
     asset_generatedIssues = None\<rparr>"

section \<open>The conversation (transport adapter)\<close>

text \<open>
  Why an image could not be fetched: \<open>HTTP ${response.status}\<close> for an answer that is
  not ok, or the message of a rejected \<open>fetch\<close> or body read.
\<close>

datatype fetch_error = HttpStatus nat | FetchFailed string

text \<open>
  What the bot writes to the conversation. Each constructor is one message text of
  the source; its arguments are the data the text is built from.
\<close>

datatype notice =
    AddedImage string
  | FailedAttachment string
  | AddedText string
  | SkippingImage fetch_error
  | StartingGeneration
  | GeneratingContent string
  | GenerationComplete string
  | GenerationFailed
  | IssuesCreated "created_issue list"
  | ReviewTheseIssues "issue list"
  | UpdatedPreview "issue list"
  | WhatChanges
  | Regenerating
  | IssueCreationCanceled
  | ErrorNotice js_error

text \<open>A message in the conversation: its content and the custom ids of its buttons.\<close>

record post =
  post_content :: notice
  post_components :: "string list"

text \<open>
  The conversation as the bot sees it: the messages delivered so far, the number of
  calls made to the chat gateway, and whether the thread is archived. The gateway is
  external and a call to it can fail: \<open>up n\<close> says whether call number \<open>n\<close> (counted
  from 0) succeeds. A failed call is a rejected promise (\<open>TransportError\<close>).
\<close>

record channel =
  posts :: "post list"
  attempts :: nat
  archived :: bool

type_synonym transport = "nat \<Rightarrow> bool"

definition tick :: "channel \<Rightarrow> channel" where
  "tick ch = ch\<lparr>attempts := Suc (attempts ch)\<rparr>"

text \<open>\<open>channel.send\<close>: the handle of the new message (its position), or \<open>None\<close> on failure.\<close>

definition send :: "transport \<Rightarrow> channel \<Rightarrow> notice \<Rightarrow> string list \<Rightarrow> nat option \<times> channel" where
  "send up ch n comps =
     (if up (attempts ch)
      then (Some (length (posts ch)),
            tick (ch\<lparr>posts := posts ch @ [\<lparr>post_content = n, post_components = comps\<rparr>]\<rparr>))
      else (None, tick ch))"

text \<open>\<open>message.edit\<close>: the change is applied to the message with that handle.\<close>

definition edit :: "transport \<Rightarrow> channel \<Rightarrow> nat \<Rightarrow> (post \<Rightarrow> post) \<Rightarrow> bool \<times> channel" where
  "edit up ch h change =
     (if up (attempts ch)
      then (True, tick (ch\<lparr>posts := (posts ch)[h := change (posts ch ! h)]\<rparr>))
      else (False, tick ch))"

definition setArchived :: "transport \<Rightarrow> channel \<Rightarrow> bool \<times> channel" where
  "setArchived up ch =
     (if up (attempts ch) then (True, tick (ch\<lparr>archived := True\<rparr>)) else (False, tick ch))"

definition deferUpdate :: "transport \<Rightarrow> channel \<Rightarrow> bool \<times> channel" where
  "deferUpdate up ch = (up (attempts ch), tick ch)"

definition set_content :: "notice \<Rightarrow> post \<Rightarrow> post" where
  "set_content n p = p\<lparr>post_content := n\<rparr>"

definition set_components :: "string list \<Rightarrow> post \<Rightarrow> post" where
  "set_components comps p = p\<lparr>post_components := comps\<rparr>"

section \<open>Generation: \<open>processImages\<close> and \<open>generateIssueContent\<close> (openai-utils.js)\<close>

text \<open>
  The answer of \<open>fetch(url)\<close>: a rejection with its message, or a response with its
  \<open>ok\<close> flag, status, content-type header (\<open>None\<close> is null) and body (\<open>None\<close> when
  reading the body rejects). The network is a parameter, a function of the URL.
\<close>

record response =
  resp_ok :: bool
  resp_status :: nat
  resp_content_type :: "string option"
  resp_body :: "string option"

datatype fetch_result = Rejected string | Responded response

definition fetchImageAsBase64 ::
  "(string \<Rightarrow> fetch_result) \<Rightarrow> (string \<Rightarrow> string) \<Rightarrow> string \<Rightarrow> fetch_error + string" where
  "fetchImageAsBase64 fetch base64 url =
     (case fetch url of
        Rejected m \<Rightarrow> Inl (FetchFailed m)
      | Responded r \<Rightarrow>
          if \<not> resp_ok r then Inl (HttpStatus (resp_status r))
          else (case resp_body r of
                  None \<Rightarrow> Inl (FetchFailed ''body'')
                | Some buffer \<Rightarrow>
                    Inr (''data:'' @ (case resp_content_type r of None \<Rightarrow> ''null'' | Some t \<Rightarrow> t)
                           @ '';base64,'' @ base64 buffer)))"

text \<open>A part of the user message of the completion request.\<close>

datatype content_part = TextPart string | ImageUrl string

text \<open>
  The callback \<open>processImages\<close> maps over the references: the image part, or, after a
  failed fetch, a warning to the conversation and \<open>null\<close> (\<open>None\<close>). The warning is
  sent inside the \<open>catch\<close>, so a failure to send it rejects the callback.
\<close>

definition image_callback ::
  "(string \<Rightarrow> fetch_result) \<Rightarrow> (string \<Rightarrow> string) \<Rightarrow> transport \<Rightarrow> string \<Rightarrow> channel
     \<Rightarrow> (js_error + content_part option) \<times> channel" where
  "image_callback fetch base64 up url ch =
     (case fetchImageAsBase64 fetch base64 url of
        Inr dataUrl \<Rightarrow> (Inr (Some (ImageUrl dataUrl)), ch)
      | Inl error \<Rightarrow>
          (case send up ch (SkippingImage error) [] of
             (Some h, ch') \<Rightarrow> (Inr None, ch')
           | (None, ch') \<Rightarrow> (Inl TransportError, ch')))"

text \<open>
  \<open>images.map\<close> starts all callbacks at once, and each goes on when its fetch is done.
  The order in which the fetches are done is up to the network and is a parameter:
  the positions that \<open>order\<close> names, in that order, and after them the positions it
  does not name.
\<close>

definition completion_order :: "nat list \<Rightarrow> nat \<Rightarrow> nat list" where
  "completion_order order n =
     filter (\<lambda>i. i < n) (remdups order) @ filter (\<lambda>i. i \<notin> set order) [0..<n]"

text \<open>
  Every callback runs to its end, whatever becomes of the others: the callbacks in
  the order of completion, each with its position and its outcome.
\<close>

fun run_callbacks ::
  "(string \<Rightarrow> fetch_result) \<Rightarrow> (string \<Rightarrow> string) \<Rightarrow> transport \<Rightarrow> string list \<Rightarrow> nat list
     \<Rightarrow> channel \<Rightarrow> (nat \<times> (js_error + content_part option)) list \<times> channel" where
  "run_callbacks fetch base64 up images [] ch = ([], ch)"
| "run_callbacks fetch base64 up images (i # rest) ch =
     (case image_callback fetch base64 up (images ! i) ch of
        (r, ch') \<Rightarrow>
          (case run_callbacks fetch base64 up images rest ch' of
             (settled, ch'') \<Rightarrow> ((i, r) # settled, ch'')))"

text \<open>
  \<open>Promise.all\<close>: rejected with the error of the first callback that is rejected;
  otherwise the results, in the order of the references. The conversation returned
  is the one the callbacks leave behind when all of them are done.
\<close>

definition promise_all_images ::
  "(string \<Rightarrow> fetch_result) \<Rightarrow> (string \<Rightarrow> string) \<Rightarrow> transport \<Rightarrow> nat list \<Rightarrow> string list
     \<Rightarrow> channel \<Rightarrow> (js_error + content_part option list) \<times> channel" where
  "promise_all_images fetch base64 up order images ch =
     (case run_callbacks fetch base64 up images (completion_order order (length images)) ch of
        (settled, ch') \<Rightarrow>
          (case List.map_filter (\<lambda>(i, r). case r of Inl e \<Rightarrow> Some e | Inr v \<Rightarrow> None) settled of
             e # es \<Rightarrow> (Inl e, ch')
           | [] \<Rightarrow>
               (Inr (List.map_filter
                       (\<lambda>i. case map_of settled i of Some (Inr v) \<Rightarrow> Some v | _ \<Rightarrow> None)
                       [0..<length images]), ch')))"

text \<open>\<open>processImages\<close>: the results with the nulls filtered out (\<open>filter(Boolean)\<close>).\<close>

definition processImages ::
  "(string \<Rightarrow> fetch_result) \<Rightarrow> (string \<Rightarrow> string) \<Rightarrow> transport \<Rightarrow> nat list \<Rightarrow> string list
     \<Rightarrow> channel \<Rightarrow> (js_error + content_part list) \<times> channel" where
  "processImages fetch base64 up order images ch =
     (case promise_all_images fetch base64 up order images ch of
        (Inl e, ch') \<Rightarrow> (Inl e, ch')
      | (Inr results, ch') \<Rightarrow> (Inr (List.map_filter (\<lambda>r. r) results), ch'))"

text \<open>
  The user message of \<open>buildMessages\<close>: the text fragments joined by blank lines, then
  the image parts. The system message is a constant of the source.
\<close>

definition buildMessages :: "string list \<Rightarrow> content_part list \<Rightarrow> content_part list" where
  "buildMessages txt imageContents = TextPart (join (newline @ newline) txt) # imageContents"

text \<open>
  The completion service is external: for a request it gives a stream, or \<open>None\<close> when
  the request is rejected. A stream is its chunks of text and whether it breaks off
  with an error after them.
\<close>

record completion_stream =
  chunks :: "string list"
  breaks :: bool

text \<open>\<open>content.slice(-1950)\<close>.\<close>

definition last_chars :: "nat \<Rightarrow> string \<Rightarrow> string" where
  "last_chars n s = drop (length s - n) s"

text \<open>
  The loop of \<open>handleAIStream\<close> with \<open>updateStatusMessage\<close>: the status message is
  edited whenever the length of the accumulated text is a multiple of 15.
\<close>

fun read_chunks ::
  "transport \<Rightarrow> nat \<Rightarrow> string \<Rightarrow> string list \<Rightarrow> channel \<Rightarrow> (js_error + string) \<times> channel" where
  "read_chunks up statusMessage contentBuffer [] ch = (Inr contentBuffer, ch)"
| "read_chunks up statusMessage contentBuffer (c # cs) ch =
     (let buf = contentBuffer @ c in
      if length buf mod 15 = 0
      then (case edit up ch statusMessage (set_content (GeneratingContent (last_chars 1950 buf))) of
              (True, ch') \<Rightarrow> read_chunks up statusMessage buf cs ch'
            | (False, ch') \<Rightarrow> (Inl TransportError, ch'))
      else read_chunks up statusMessage buf cs ch)"

definition stream_body ::
  "transport \<Rightarrow> (string \<Rightarrow> json option) \<Rightarrow> nat \<Rightarrow> completion_stream \<Rightarrow> channel
     \<Rightarrow> (js_error + issue list) \<times> channel" where
  "stream_body up JSON_parse statusMessage stream ch =
     (case read_chunks up statusMessage [] (chunks stream) ch of
        (Inl e, ch') \<Rightarrow> (Inl e, ch')
      | (Inr contentBuffer, ch') \<Rightarrow>
          if breaks stream then (Inl CompletionError, ch')
          else (case edit up ch' statusMessage
                       (set_content (GenerationComplete (last_chars 1950 contentBuffer))) of
                  (False, ch'') \<Rightarrow> (Inl TransportError, ch'')
                | (True, ch'') \<Rightarrow> (validateAIResponse JSON_parse contentBuffer, ch'')))"

text \<open>
  \<open>handleAIStream\<close>: the status message is sent before the \<open>try\<close>; an error in the body
  is answered by editing the status message and thrown again.
\<close>

definition handleAIStream ::
  "transport \<Rightarrow> (string \<Rightarrow> json option) \<Rightarrow> completion_stream \<Rightarrow> channel
     \<Rightarrow> (js_error + issue list) \<times> channel" where
  "handleAIStream up JSON_parse stream ch =
     (case send up ch StartingGeneration [] of
        (None, ch0) \<Rightarrow> (Inl TransportError, ch0)
      | (Some statusMessage, ch0) \<Rightarrow>
          (case stream_body up JSON_parse statusMessage stream ch0 of
             (Inr issues, ch1) \<Rightarrow> (Inr issues, ch1)
           | (Inl error, ch1) \<Rightarrow>
               (case edit up ch1 statusMessage (set_content GenerationFailed) of
                  (True, ch2) \<Rightarrow> (Inl error, ch2)
                | (False, ch2) \<Rightarrow> (Inl TransportError, ch2))))"

text \<open>
  The external services a session talks to, and the environment. \<open>sv_order\<close> is the
  order in which the fetches of a list of image references are done.
\<close>

record services =
  sv_up :: transport
  sv_fetch :: "string \<Rightarrow> fetch_result"
  sv_order :: "string list \<Rightarrow> nat list"
  sv_base64 :: "string \<Rightarrow> string"
  sv_openai :: "content_part list \<Rightarrow> completion_stream option"
  sv_JSON_parse :: "string \<Rightarrow> json option"
  sv_github :: tracker_api
  sv_env :: env

text \<open>\<open>generateIssueContent({text, images}, channel)\<close>; its \<open>catch\<close> logs and rethrows.\<close>

definition generateIssueContent ::
  "services \<Rightarrow> assets \<Rightarrow> channel \<Rightarrow> (js_error + issue list) \<times> channel" where
  "generateIssueContent sv a ch =
     (case processImages (sv_fetch sv) (sv_base64 sv) (sv_up sv) (sv_order sv (asset_images a))
             (asset_images a) ch of
        (Inl e, ch') \<Rightarrow> (Inl e, ch')
      | (Inr imageContents, ch') \<Rightarrow>
          (case sv_openai sv (buildMessages (asset_text a) imageContents) of
             None \<Rightarrow> (Inl CompletionError, ch')
           | Some stream \<Rightarrow> handleAIStream (sv_up sv) (sv_JSON_parse sv) stream ch'))"

text \<open>
  What the specification says a generation goes on with: the parts of the references
  whose fetch succeeds, the others being dropped.
\<close>

definition part_of ::
  "(string \<Rightarrow> fetch_result) \<Rightarrow> (string \<Rightarrow> string) \<Rightarrow> string \<Rightarrow> content_part option" where
  "part_of fetch base64 url =
     (case fetchImageAsBase64 fetch base64 url of Inr d \<Rightarrow> Some (ImageUrl d) | Inl e \<Rightarrow> None)"

definition fetched_images ::
  "(string \<Rightarrow> fetch_result) \<Rightarrow> (string \<Rightarrow> string) \<Rightarrow> string list \<Rightarrow> content_part list" where
  "fetched_images fetch base64 urls = List.map_filter (part_of fetch base64) urls"

text \<open>
  An example network: \<open>u1\<close> is an image, \<open>u2\<close> answers 404, anything else cannot be
  reached; a base64 encoder that is good enough for an example; an empty conversation.
\<close>

definition sample_fetch :: "string \<Rightarrow> fetch_result" where
  "sample_fetch url =
     (if url = ''u1'' then Responded \<lparr>resp_ok = True, resp_status = 200,
          resp_content_type = Some ''image/png'', resp_body = Some ''PNG''\<rparr>
      else if url = ''u2'' then Responded \<lparr>resp_ok = False, resp_status = 404,
          resp_content_type = None, resp_body = Some []\<rparr>
      else Rejected ''unreachable'')"

definition sample_base64 :: "string \<Rightarrow> string" where
  "sample_base64 bytes = ''UE5H''"

definition empty_channel :: channel where
  "empty_channel = \<lparr>posts = [], attempts = 0, archived = False\<rparr>"


section \<open>Listing: \<open>processProjectItems\<close> (github-utils.js)\<close>

text \<open>
  The shapes are those of the GraphQL queries of \<open>getStatusField\<close> and
  \<open>getProjectItems\<close>: a status field is a list of options \<open>{id, name}\<close>; an item has
  an id, a \<open>fieldValueByName\<close> that is null (\<open>None\<close>) or \<open>{name, optionId}\<close>, both
  nullable strings (\<open>None\<close> is JSON null), and the linked issue.
\<close>

record status_option =
  opt_id :: string
  opt_name :: string

record status_field =
  options :: "status_option list"

record status_value =
  sv_name :: "string option"
  sv_optionId :: "string option"

record issue_content =
  ic_number :: nat
  ic_title :: string
  ic_url :: string
  ic_body :: "string option"
  ic_assignees :: "string list"

record project_item =
  item_id :: string
  fieldValueByName :: "status_value option"
  item_content :: issue_content

definition nullable :: "string option \<Rightarrow> jsstr" where
  "nullable v = (case v of None \<Rightarrow> Null | Some s \<Rightarrow> Str s)"

text \<open>\<open>item.fieldValueByName?.name\<close> and \<open>item.fieldValueByName?.optionId\<close>.\<close>

definition status_of :: "project_item \<Rightarrow> jsstr" where
  "status_of item =
     (case fieldValueByName item of None \<Rightarrow> Undefined | Some v \<Rightarrow> nullable (sv_name v))"

definition optionId_of :: "project_item \<Rightarrow> jsstr" where
  "optionId_of item =
     (case fieldValueByName item of None \<Rightarrow> Undefined | Some v \<Rightarrow> nullable (sv_optionId v))"

text \<open>\<open>statusField.options.find(o => o.name === 'Backlog')\<close> and the same for \<open>'Done'\<close>.\<close>

definition backlogOption :: "status_field \<Rightarrow> status_option option" where
  "backlogOption statusField = find (\<lambda>p. opt_name p = ''Backlog'') (options statusField)"

definition doneOption :: "status_field \<Rightarrow> status_option option" where
  "doneOption statusField = find (\<lambda>p. opt_name p = ''Done'') (options statusField)"

text \<open>\<open>doneOption?.name\<close> and \<open>backlogOption?.id\<close>.\<close>

definition name_of_option :: "status_option option \<Rightarrow> jsstr" where
  "name_of_option opt = (case opt of None \<Rightarrow> Undefined | Some p \<Rightarrow> Str (opt_name p))"

definition id_of_option :: "status_option option \<Rightarrow> jsstr" where
  "id_of_option opt = (case opt of None \<Rightarrow> Undefined | Some p \<Rightarrow> Str (opt_id p))"

text \<open>The filter callback: \<open>status && status !== doneOption?.name\<close>.\<close>

definition keepItem :: "status_option option \<Rightarrow> project_item \<Rightarrow> bool" where
  "keepItem dOpt item = (truthy (status_of item) \<and> status_of item \<noteq> name_of_option dOpt)"

text \<open>The sort callback, with its three returns in the order of the source.\<close>

definition compareItems :: "status_option option \<Rightarrow> project_item \<Rightarrow> project_item \<Rightarrow> int" where
  "compareItems bOpt a b =
     (if optionId_of a = id_of_option bOpt then - 1
      else if optionId_of b = id_of_option bOpt then 1
      else 0)"

text \<open>
  \<open>Array.prototype.sort\<close> belongs to the runtime, not to the repository. The bot runs
  on Node.js, whose engine sorts an array of fewer than 64 elements in two steps: it
  takes the run the array starts with, and then inserts the other elements one by
  one at the position a binary search gives. (A longer array it cuts into pieces
  that it sorts in this way and then merges; the merge is not modelled.) The
  comparison function of the listing answers \<open>-1\<close> both ways for two Backlog items, so
  the order the engine leaves them in is the order this procedure happens to give.

  The run: the first two elements are compared; when the second is smaller the run
  is descending, goes on as long as each element is smaller than the one before,
  and is reversed; otherwise it is ascending and goes on as long as no element is
  smaller than the one before.
\<close>

fun extend_run :: "('a \<Rightarrow> 'a \<Rightarrow> int) \<Rightarrow> bool \<Rightarrow> 'a \<Rightarrow> 'a list \<Rightarrow> 'a list \<times> 'a list" where
  "extend_run cmp isDescending previousElement [] = ([], [])"
| "extend_run cmp isDescending previousElement (currentElement # xs) =
     (let order = cmp currentElement previousElement in
      if (if isDescending then 0 \<le> order else order < 0) then ([], currentElement # xs)
      else (case extend_run cmp isDescending currentElement xs of
              (run, rest) \<Rightarrow> (currentElement # run, rest)))"

fun count_and_make_run :: "('a \<Rightarrow> 'a \<Rightarrow> int) \<Rightarrow> 'a list \<Rightarrow> 'a list \<times> 'a list" where
  "count_and_make_run cmp [] = ([], [])"
| "count_and_make_run cmp [x] = ([x], [])"
| "count_and_make_run cmp (elementHigh # elementLow # xs) =
     (let isDescending = (cmp elementLow elementHigh < 0) in
      case extend_run cmp isDescending elementLow xs of
        (run, rest) \<Rightarrow>
          (if isDescending then rev (elementHigh # elementLow # run)
           else elementHigh # elementLow # run, rest))"

text \<open>
  The binary search for the place of \<open>pivot\<close> in the sorted part: the comparison
  function is asked about the pivot and the middle element, and the search goes on
  to the left when the answer is negative, to the right otherwise.
\<close>

function binary_position :: "('a \<Rightarrow> 'a \<Rightarrow> int) \<Rightarrow> 'a \<Rightarrow> 'a list \<Rightarrow> nat \<Rightarrow> nat \<Rightarrow> nat" where
  "binary_position cmp pivot xs left right =
     (if left < right then
        (let mid = left + (right - left) div 2 in
         if cmp pivot (xs ! mid) < 0 then binary_position cmp pivot xs left mid
         else binary_position cmp pivot xs (mid + 1) right)
      else left)"
  by pat_completeness auto
termination
  by (relation "measure (\<lambda>(cmp, pivot, xs, left, right). right - left)") auto

declare binary_position.simps [simp del]

definition binary_insert :: "('a \<Rightarrow> 'a \<Rightarrow> int) \<Rightarrow> 'a list \<Rightarrow> 'a \<Rightarrow> 'a list" where
  "binary_insert cmp workArray pivot =
     (let left = binary_position cmp pivot workArray 0 (length workArray) in
      take left workArray @ pivot # drop left workArray)"

definition array_sort :: "('a \<Rightarrow> 'a \<Rightarrow> int) \<Rightarrow> 'a list \<Rightarrow> 'a list" where
  "array_sort cmp xs =
     (case count_and_make_run cmp xs of (run, rest) \<Rightarrow> foldl (binary_insert cmp) run rest)"

text \<open>
  \<open>processProjectItems(items, statusField)\<close>. \<open>getStatusField\<close> returns the result of a
  \<open>find\<close>, so \<open>statusField\<close> may be undefined (\<open>None\<close>); \<open>statusField.options\<close> then
  throws a TypeError before anything is filtered.
\<close>

definition processProjectItems ::
  "project_item list \<Rightarrow> status_field option \<Rightarrow> js_error + project_item list" where
  "processProjectItems items statusField =
     (case statusField of
        None \<Rightarrow> Inl TypeError
      | Some sf \<Rightarrow>
          Inr (array_sort (compareItems (backlogOption sf))
                 (filter (keepItem (doneOption sf)) items)))"

text \<open>The words of the specification about an item, for a given status field.\<close>

definition lacks_status :: "project_item \<Rightarrow> bool" where
  "lacks_status item =
     (case fieldValueByName item of
        None \<Rightarrow> True
      | Some v \<Rightarrow> (case sv_name v of None \<Rightarrow> True | Some s \<Rightarrow> s = []))"

definition status_is_done :: "status_field \<Rightarrow> project_item \<Rightarrow> bool" where
  "status_is_done sf item =
     (case doneOption sf of
        None \<Rightarrow> False
      | Some d \<Rightarrow>
          (case fieldValueByName item of
             None \<Rightarrow> False
           | Some v \<Rightarrow> sv_name v = Some (opt_name d)))"

definition status_is_backlog :: "status_field \<Rightarrow> project_item \<Rightarrow> bool" where
  "status_is_backlog sf item =
     (case backlogOption sf of
        None \<Rightarrow> False
      | Some b \<Rightarrow>
          (case fieldValueByName item of
             None \<Rightarrow> False
           | Some v \<Rightarrow> sv_optionId v = Some (opt_id b)))"

text \<open>The board of the specification's listing example.\<close>

definition board_field :: status_field where
  "board_field = \<lparr>options =
     [\<lparr>opt_id = ''o1'', opt_name = ''Backlog''\<rparr>,
      \<lparr>opt_id = ''o2'', opt_name = ''In Progress''\<rparr>,
      \<lparr>opt_id = ''o3'', opt_name = ''Done''\<rparr>]\<rparr>"

definition mk_item :: "string \<Rightarrow> status_value option \<Rightarrow> project_item" where
  "mk_item i v = \<lparr>item_id = i, fieldValueByName = v,
     item_content = \<lparr>ic_number = 1, ic_title = i, ic_url = [], ic_body = None, ic_assignees = []\<rparr>\<rparr>"

definition item_progress :: project_item where
  "item_progress = mk_item ''a'' (Some \<lparr>sv_name = Some ''In Progress'', sv_optionId = Some ''o2''\<rparr>)"

definition item_done :: project_item where
  "item_done = mk_item ''b'' (Some \<lparr>sv_name = Some ''Done'', sv_optionId = Some ''o3''\<rparr>)"

definition item_none :: project_item where
  "item_none = mk_item ''c'' None"

definition item_backlog :: project_item where
  "item_backlog = mk_item ''d'' (Some \<lparr>sv_name = Some ''Backlog'', sv_optionId = Some ''o1''\<rparr>)"

definition item_backlog2 :: project_item where
  "item_backlog2 = mk_item ''e'' (Some \<lparr>sv_name = Some ''Backlog'', sv_optionId = Some ''o1''\<rparr>)"

definition board_items :: "project_item list" where
  "board_items = [item_progress, item_done, item_none, item_backlog]"

section \<open>The issue-creation session (index.js)\<close>

text \<open>An inbound message: its author, whether the author is a bot, its text and its attachments.\<close>

record attachment =
  att_url :: string
  att_name :: string

record message =
  author_id :: string
  author_bot :: bool
  msg_content :: string
  msg_attachments :: "attachment list"

text \<open>
  \<open>toLowerCase\<close>, on the letters A to Z. No other character is lowered to a character
  of \<open>!done\<close>, so the comparison with \<open>'!done'\<close> is the source's.
\<close>

definition lower_char :: "char \<Rightarrow> char" where
  "lower_char c =
     (let n = (of_char c :: nat) in if 65 \<le> n \<and> n \<le> 90 then char_of (n + 32) else c)"

definition toLowerCase :: "string \<Rightarrow> string" where
  "toLowerCase s = map lower_char s"

text \<open>
  The state of one \<open>create-issue\<close> invocation, from the creation of the message
  collector on: the constants of the closure (\<open>interaction.user.id\<close>, \<open>isDM\<close>,
  \<open>wantsPreview\<close>), the bundle \<open>assets\<close>, the conversation and the tracker, whether the
  message collector is running, and for the review: the constant \<open>generatedIssues\<close>,
  the handle of \<open>previewMessage\<close>, whether the button collector is running, and the
  number of edit collectors that are open.
\<close>

record session =
  initiator :: string
  isDM :: bool
  wantsPreview :: bool
  collected :: assets
  chan :: channel
  trk :: tracker
  collecting :: bool
  generated :: "issue list"
  previewMessage :: "nat option"
  reviewing :: bool
  edit_windows :: nat

definition new_session :: "string \<Rightarrow> bool \<Rightarrow> bool \<Rightarrow> channel \<Rightarrow> tracker \<Rightarrow> session" where
  "new_session user dm preview ch tr =
     \<lparr>initiator = user, isDM = dm, wantsPreview = preview,
      collected = \<lparr>asset_text = [], asset_images = [], asset_generatedIssues = None\<rparr>,
      chan = ch, trk = tr, collecting = True, generated = [], previewMessage = None,
      reviewing = False, edit_windows = 0\<rparr>"

subsection \<open>The collection window\<close>

text \<open>
  The loop over the attachments of a message. The URL is pushed before the
  acknowledgement is sent; when the acknowledgement cannot be sent, the \<open>catch\<close> sends
  a failure notice, and when that cannot be sent either the handler is rejected
  (\<open>False\<close>) with what it has pushed so far.
\<close>

fun collect_attachments ::
  "transport \<Rightarrow> attachment list \<Rightarrow> assets \<Rightarrow> channel \<Rightarrow> bool \<times> assets \<times> channel" where
  "collect_attachments up [] a ch = (True, a, ch)"
| "collect_attachments up (x # xs) a ch =
     (let a1 = a\<lparr>asset_images := asset_images a @ [att_url x]\<rparr> in
      case send up ch (AddedImage (att_name x)) [] of
        (Some h, ch1) \<Rightarrow> collect_attachments up xs a1 ch1
      | (None, ch1) \<Rightarrow>
          (case send up ch1 (FailedAttachment (att_name x)) [] of
             (Some h, ch2) \<Rightarrow> collect_attachments up xs a1 ch2
           | (None, ch2) \<Rightarrow> (False, a1, ch2)))"

text \<open>\<open>if (msg.content) { assets.text.push(msg.content); await send(...) }\<close>.\<close>

definition collect_text :: "transport \<Rightarrow> string \<Rightarrow> assets \<Rightarrow> channel \<Rightarrow> assets \<times> channel" where
  "collect_text up c a ch =
     (if c \<noteq> [] then (a\<lparr>asset_text := asset_text a @ [c]\<rparr>, snd (send up ch (AddedText c) []))
      else (a, ch))"

text \<open>
  The handler \<open>collector.on('collect')\<close>. It looks at \<open>msg.author.bot\<close> and at the
  text, never at who the author is. \<open>collector.stop()\<close> ends the collection.
\<close>

definition on_collect :: "services \<Rightarrow> session \<Rightarrow> message \<Rightarrow> session" where
  "on_collect sv s msg =
     (if author_bot msg then s
      else if toLowerCase (msg_content msg) = ''!done'' then s\<lparr>collecting := False\<rparr>
      else (case collect_attachments (sv_up sv) (msg_attachments msg) (collected s) (chan s) of
              (False, a, ch) \<Rightarrow> s\<lparr>collected := a, chan := ch\<rparr>
            | (True, a, ch) \<Rightarrow>
                (case collect_text (sv_up sv) (msg_content msg) a ch of
                   (a', ch') \<Rightarrow> s\<lparr>collected := a', chan := ch'\<rparr>)))"

subsection \<open>The end of the collection: generation, direct commit, review\<close>

text \<open>
  The two button rows the source builds. \<open>buttons\<close> (confirm, edit, cancel) is built
  and never attached to a message; \<open>row\<close> is the \<open>components\<close> of the preview message.
\<close>

definition buttons :: "string list" where
  "buttons = [''confirm'', ''edit'', ''cancel'']"

definition row :: "string list" where
  "row = [''confirm_issues'', ''cancel_issues'']"

text \<open>
  Direct commit (\<open>!wantsPreview\<close>): the issues are created, the success message is
  sent and a thread is archived. A rejection anywhere ends the handler.
\<close>

definition direct_commit :: "services \<Rightarrow> session \<Rightarrow> issue list \<Rightarrow> session" where
  "direct_commit sv s generatedIssues =
     (case createIssues (sv_github sv) (sv_env sv) generatedIssues (collected s) (trk s) of
        (Inl e, tr) \<Rightarrow> s\<lparr>trk := tr\<rparr>
      | (Inr createdIssues, tr) \<Rightarrow>
          (case send (sv_up sv) (chan s) (IssuesCreated createdIssues) [] of
             (None, ch) \<Rightarrow> s\<lparr>trk := tr, chan := ch\<rparr>
           | (Some h, ch) \<Rightarrow>
               if \<not> isDM s then s\<lparr>trk := tr, chan := snd (setArchived (sv_up sv) ch)\<rparr>
               else s\<lparr>trk := tr, chan := ch\<rparr>))"

text \<open>
  Preview mode: the issues are stored in the bundle, the preview message is sent with
  \<open>components: [row]\<close>, and the button collector is created on it.
\<close>

definition start_review :: "services \<Rightarrow> session \<Rightarrow> issue list \<Rightarrow> session" where
  "start_review sv s generatedIssues =
     (let s1 = s\<lparr>collected := (collected s)\<lparr>asset_generatedIssues := Some generatedIssues\<rparr>,
                 generated := generatedIssues\<rparr> in
      case send (sv_up sv) (chan s1) (ReviewTheseIssues generatedIssues) row of
        (None, ch) \<Rightarrow> s1\<lparr>chan := ch\<rparr>
      | (Some h, ch) \<Rightarrow> s1\<lparr>chan := ch, previewMessage := Some h, reviewing := True\<rparr>)"

text \<open>The handler \<open>collector.on('end')\<close>.\<close>

definition on_end :: "services \<Rightarrow> session \<Rightarrow> session" where
  "on_end sv s =
     (case generateIssueContent sv (collected s) (chan s) of
        (Inl e, ch) \<Rightarrow> s\<lparr>chan := ch\<rparr>
      | (Inr generatedIssues, ch) \<Rightarrow>
          if \<not> wantsPreview s then direct_commit sv (s\<lparr>chan := ch\<rparr>) generatedIssues
          else start_review sv (s\<lparr>chan := ch\<rparr>) generatedIssues)"

subsection \<open>The review window\<close>

text \<open>
  The handler \<open>buttonCollector.on('end')\<close>, run when the collector is stopped or its
  five minutes are over: the buttons of the preview message are removed. The edit is
  not awaited, so its failure goes unnoticed.
\<close>

definition review_end :: "services \<Rightarrow> session \<Rightarrow> session" where
  "review_end sv s =
     (case previewMessage s of
        None \<Rightarrow> s\<lparr>reviewing := False\<rparr>
      | Some h \<Rightarrow>
          s\<lparr>reviewing := False,
            chan := snd (edit (sv_up sv) (chan s) h (set_components []))\<rparr>)"

text \<open>The \<open>catch\<close> of the button handler: \<open>send(`Error: ${error.message}`)\<close>.\<close>

definition report_error :: "services \<Rightarrow> session \<Rightarrow> js_error \<Rightarrow> session" where
  "report_error sv s e = s\<lparr>chan := snd (send (sv_up sv) (chan s) (ErrorNotice e) [])\<rparr>"

text \<open>What the confirm and the cancel case do after their message: archive a thread.\<close>

definition archive_thread :: "services \<Rightarrow> session \<Rightarrow> session" where
  "archive_thread sv s =
     (if \<not> isDM s
      then (case setArchived (sv_up sv) (chan s) of
              (True, ch) \<Rightarrow> s\<lparr>chan := ch\<rparr>
            | (False, ch) \<Rightarrow> report_error sv (s\<lparr>chan := ch\<rparr>) TransportError)
      else s)"

text \<open>
  \<open>case 'confirm_issues'\<close>: the collector is stopped, then the issues of the constant
  \<open>generatedIssues\<close> are created with the bundle.
\<close>

definition confirm_issues :: "services \<Rightarrow> session \<Rightarrow> session" where
  "confirm_issues sv s =
     (let s1 = review_end sv s in
      case createIssues (sv_github sv) (sv_env sv) (generated s1) (collected s1) (trk s1) of
        (Inl e, tr) \<Rightarrow> report_error sv (s1\<lparr>trk := tr\<rparr>) e
      | (Inr createdIssues, tr) \<Rightarrow>
          (case send (sv_up sv) (chan s1) (IssuesCreated createdIssues) [] of
             (None, ch) \<Rightarrow> report_error sv (s1\<lparr>trk := tr, chan := ch\<rparr>) TransportError
           | (Some h, ch) \<Rightarrow> archive_thread sv (s1\<lparr>trk := tr, chan := ch\<rparr>)))"

text \<open>\<open>case 'edit'\<close>: the question is sent and an edit collector is opened.\<close>

definition edit_requested :: "services \<Rightarrow> session \<Rightarrow> session" where
  "edit_requested sv s =
     (case send (sv_up sv) (chan s) WhatChanges [] of
        (None, ch) \<Rightarrow> report_error sv (s\<lparr>chan := ch\<rparr>) TransportError
      | (Some h, ch) \<Rightarrow> s\<lparr>chan := ch, edit_windows := Suc (edit_windows s)\<rparr>)"

text \<open>\<open>case 'cancel_issues'\<close>.\<close>

definition cancel_issues :: "services \<Rightarrow> session \<Rightarrow> session" where
  "cancel_issues sv s =
     (let s1 = review_end sv s in
      case send (sv_up sv) (chan s1) IssueCreationCanceled [] of
        (None, ch) \<Rightarrow> report_error sv (s1\<lparr>chan := ch\<rparr>) TransportError
      | (Some h, ch) \<Rightarrow> archive_thread sv (s1\<lparr>chan := ch\<rparr>))"

text \<open>
  The handler \<open>buttonCollector.on('collect')\<close>: \<open>deferUpdate\<close>, then the \<open>switch\<close> on the
  custom id, which has these three cases and no default.
\<close>

definition on_button :: "services \<Rightarrow> session \<Rightarrow> string \<Rightarrow> session" where
  "on_button sv s customId =
     (case deferUpdate (sv_up sv) (chan s) of
        (False, ch) \<Rightarrow> s\<lparr>chan := ch\<rparr>
      | (True, ch) \<Rightarrow>
          if customId = ''confirm_issues'' then confirm_issues sv (s\<lparr>chan := ch\<rparr>)
          else if customId = ''edit'' then edit_requested sv (s\<lparr>chan := ch\<rparr>)
          else if customId = ''cancel_issues'' then cancel_issues sv (s\<lparr>chan := ch\<rparr>)
          else s\<lparr>chan := ch\<rparr>)"

text \<open>
  The handler \<open>editCollector.on('collect')\<close>: the edit request is appended to the text
  of the bundle, the issues are generated again and stored in the bundle, and the
  preview message is replaced, with \<open>row\<close> as its buttons.
\<close>

definition on_edit_message :: "services \<Rightarrow> message \<Rightarrow> session \<Rightarrow> session" where
  "on_edit_message sv editMsg s =
     (let a = (collected s)\<lparr>asset_text :=
                asset_text (collected s) @ [''USER EDIT REQUEST: '' @ msg_content editMsg]\<rparr> in
      case send (sv_up sv) (chan s) Regenerating [] of
        (None, ch) \<Rightarrow> s\<lparr>collected := a, chan := ch\<rparr>
      | (Some h, ch) \<Rightarrow>
          (case generateIssueContent sv a ch of
             (Inl e, ch') \<Rightarrow> s\<lparr>collected := a, chan := ch'\<rparr>
           | (Inr issues, ch') \<Rightarrow>
               (let a' = a\<lparr>asset_generatedIssues := Some issues\<rparr> in
                case previewMessage s of
                  None \<Rightarrow> s\<lparr>collected := a', chan := ch'\<rparr>
                | Some p \<Rightarrow>
                    s\<lparr>collected := a',
                      chan := snd (edit (sv_up sv) ch' p
                        (\<lambda>old. \<lparr>post_content = UpdatedPreview issues, post_components = row\<rparr>))\<rparr>)))"

subsection \<open>Events\<close>

text \<open>
  What can happen to a session: a message arrives in the conversation, the ten
  minutes of the collection are over, a button of the preview message is pressed by
  a user, the five minutes of the review are over, the two minutes of an edit
  collector are over. Each collector applies its filter before its handler runs:
  the message collector \<open>!m.author.bot\<close>, the button collector and the edit collectors
  \<open>id === interaction.user.id\<close>; an edit collector takes one message. Handlers run one
  after the other.
\<close>

datatype event =
    Message message
  | CollectionTimeout
  | ButtonPress string string
  | ReviewTimeout
  | EditTimeout

fun step :: "services \<Rightarrow> session \<Rightarrow> event \<Rightarrow> session" where
  "step sv s (Message m) =
     (if collecting s then
        (if author_bot m then s
         else (let s' = on_collect sv s m in if collecting s' then s' else on_end sv s'))
      else if 0 < edit_windows s \<and> author_id m = initiator s then
        ((on_edit_message sv m ^^ edit_windows s) s)\<lparr>edit_windows := 0\<rparr>
      else s)"
| "step sv s CollectionTimeout =
     (if collecting s then on_end sv (s\<lparr>collecting := False\<rparr>) else s)"
| "step sv s (ButtonPress user customId) =
     (if reviewing s \<and> user = initiator s then on_button sv s customId else s)"
| "step sv s ReviewTimeout = (if reviewing s then review_end sv s else s)"
| "step sv s EditTimeout = s\<lparr>edit_windows := edit_windows s - 1\<rparr>"

definition run :: "services \<Rightarrow> session \<Rightarrow> event list \<Rightarrow> session" where
  "run sv s evs = foldl (step sv) s evs"


definition awaiting_decision :: "session \<Rightarrow> bool" where
  "awaiting_decision s =
     (reviewing s \<and> \<not> collecting s \<and> edit_windows s = 0 \<and>
      (case previewMessage s of None \<Rightarrow> False | Some h \<Rightarrow> h < length (posts (chan s))))"

definition offered_decisions :: "session \<Rightarrow> string list" where
  "offered_decisions s =
     (case previewMessage s of None \<Rightarrow> [] | Some h \<Rightarrow> post_components (posts (chan s) ! h))"

text \<open>
  An example session, a thread in a server channel that alice starts in preview mode:
  services that always work, a completion that answers with the document \<open>loose\<close> of
  the validator's examples, and the messages of two users.
\<close>

definition sample_services :: services where
  "sample_services =
     \<lparr>sv_up = (\<lambda>n. True), sv_fetch = sample_fetch, sv_order = (\<lambda>images. []),
      sv_base64 = sample_base64,
      sv_openai = (\<lambda>req. Some \<lparr>chunks = [''loo'', ''se''], breaks = False\<rparr>),
      sv_JSON_parse = sample_parse, sv_github = always_answers, sv_env = sample_env\<rparr>"

definition text_message :: "string \<Rightarrow> bool \<Rightarrow> string \<Rightarrow> message" where
  "text_message user is_bot txt =
     \<lparr>author_id = user, author_bot = is_bot, msg_content = txt, msg_attachments = []\<rparr>"

definition alice_preview :: session where
  "alice_preview = new_session ''alice'' False True empty_channel fresh_tracker"

definition bob_message :: message where
  "bob_message =
     \<lparr>author_id = ''bob'', author_bot = False, msg_content = ''hello'',
      msg_attachments = [\<lparr>att_url = ''https://cdn/shot.png'', att_name = ''shot.png''\<rparr>]\<rparr>"

text \<open>The example session after its initiator has described a problem and typed \<open>!done\<close>.\<close>

definition sample_review :: session where
  "sample_review = run sample_services alice_preview
     [Message (text_message ''alice'' False ''the dashboard is slow''),
      Message (text_message ''alice'' False ''!Done'')]"

section \<open>Properties of the validator\<close>

lemma z_string_min_Inr:
  "z_string lo None p v = Inr s \<longleftrightarrow> v = Some (JStr s) \<and> lo \<le> length s"
  by (auto simp: z_string_def Let_def split: option.splits json.splits)

lemma z_string_range_Inr:
  "z_string lo (Some hi) p v = Inr s \<longleftrightarrow> v = Some (JStr s) \<and> lo \<le> length s \<and> length s \<le> hi"
  by (auto simp: z_string_def Let_def split: option.splits json.splits)

lemma z_string_Inl_nonempty: "z_string lo hi p v = Inl es \<Longrightarrow> es \<noteq> []"
  by (auto simp: z_string_def Let_def split: option.splits json.splits if_splits)

lemma mergeArray_map_Inr: "mergeArray (map Inr vs) = Inr vs"
  by (induction vs) auto

lemma mergeArray_Inr_D: "mergeArray rs = Inr vs \<Longrightarrow> rs = map Inr vs"
  by (induction rs arbitrary: vs) (auto split: sum.splits)

lemma mergeArray_isl: "isl (mergeArray rs) \<longleftrightarrow> (\<exists>r\<in>set rs. isl r)"
  by (induction rs) (auto split: sum.splits)

lemma mergeArray_Inl_nonempty:
  "mergeArray rs = Inl es \<Longrightarrow> \<forall>r\<in>set rs. \<forall>e. r = Inl e \<longrightarrow> e \<noteq> [] \<Longrightarrow> es \<noteq> []"
  by (induction rs arbitrary: es) (auto split: sum.splits)

lemma parse_elements_set:
  "r \<in> set (parse_elements element p i xs) \<Longrightarrow> \<exists>q x. x \<in> set xs \<and> r = element q (Some x)"
proof (induction xs arbitrary: i)
  case Nil
  then show ?case by simp
next
  case (Cons a xs)
  from Cons.prems have "r = element (p @ [Idx i]) (Some a) \<or> r \<in> set (parse_elements element p (Suc i) xs)"
    by simp
  then show ?case
  proof
    assume "r = element (p @ [Idx i]) (Some a)"
    then show ?thesis by auto
  next
    assume "r \<in> set (parse_elements element p (Suc i) xs)"
    from Cons.IH [OF this] show ?thesis by auto
  qed
qed

lemma parse_elements_map:
  "(\<And>q x. x \<in> set xs \<Longrightarrow> element q (Some x) = Inr (f x)) \<Longrightarrow>
     parse_elements element p i xs = map Inr (map f xs)"
  by (induction xs arbitrary: i) auto

lemma parse_elements_isl:
  "(\<And>q x. x \<in> set xs \<Longrightarrow> isl (element q (Some x)) \<longleftrightarrow> \<not> good x) \<Longrightarrow>
     (\<exists>r\<in>set (parse_elements element p i xs). isl r) \<longleftrightarrow> (\<exists>x\<in>set xs. \<not> good x)"
  by (induction xs arbitrary: i) auto

lemma z_array_Inl_nonempty:
  assumes el: "\<And>q x es. element q x = Inl es \<Longrightarrow> es \<noteq> []"
    and a: "z_array element p v = Inl es"
  shows "es \<noteq> []"
proof (cases v)
  case None
  with a show ?thesis by (auto simp: z_array_def)
next
  case (Some j)
  show ?thesis
  proof (cases j)
    case (JArr xs)
    with a Some have m: "mergeArray (parse_elements element p 0 xs) = Inl es"
      by (simp add: z_array_def)
    show ?thesis
      by (rule mergeArray_Inl_nonempty [OF m]) (auto dest!: parse_elements_set dest: el)
  qed (use a Some in \<open>auto simp: z_array_def\<close>)
qed

lemma z_array_isl:
  assumes "\<And>q x. x \<in> set xs \<Longrightarrow> isl (element q (Some x)) \<longleftrightarrow> \<not> good x"
  shows "isl (z_array element p (Some (JArr xs))) \<longleftrightarrow> (\<exists>x\<in>set xs. \<not> good x)"
  using parse_elements_isl [of xs element good p 0] assms
  by (simp add: z_array_def mergeArray_isl)

lemma label_isl: "isl (z_string 2 (Some 20) q (Some x)) \<longleftrightarrow> \<not> is_label x"
  by (auto simp: z_string_def is_label_def Let_def split: json.splits)

lemma title_isl: "isl (z_string n None q v) \<longleftrightarrow> \<not> is_text_of_min n v"
  by (auto simp: z_string_def is_text_of_min_def Let_def split: json.splits option.splits)

lemma labels_isl:
  "isl (z_default (JArr []) (z_array (z_string 2 (Some 20))) p v) \<longleftrightarrow>
     \<not> (case v of None \<Rightarrow> True | Some (JArr ls) \<Rightarrow> list_all is_label ls | Some _ \<Rightarrow> False)"
proof (cases v)
  case None
  then show ?thesis by (simp add: z_default_def z_array_def)
next
  case (Some j)
  show ?thesis
  proof (cases j)
    case (JArr ls)
    have "isl (z_array (z_string 2 (Some 20)) p (Some (JArr ls))) \<longleftrightarrow> (\<exists>x\<in>set ls. \<not> is_label x)"
      by (rule z_array_isl) (rule label_isl)
    with Some JArr show ?thesis by (simp add: z_default_def list_all_iff)
  qed (use Some in \<open>simp_all add: z_default_def z_array_def\<close>)
qed

lemma mergeObject_isl: "isl (mergeObject t b l) \<longleftrightarrow> isl t \<or> isl b \<or> isl l"
  by (simp add: mergeObject_def)

lemma issue_object_isl: "isl (issue_object q (Some c)) \<longleftrightarrow> \<not> conforms c"
proof (cases c)
  case (JObj kvs)
  show ?thesis
    unfolding JObj issue_object_def conforms_def
    by (simp add: mergeObject_isl title_isl labels_isl)
qed (simp_all add: issue_object_def conforms_def)

lemma failures_nonempty: "isl r \<Longrightarrow> (\<And>es. r = Inl es \<Longrightarrow> es \<noteq> []) \<Longrightarrow> failures r \<noteq> []"
  by (cases r) simp_all

lemma labels_Inl_nonempty:
  "z_default (JArr []) (z_array (z_string 2 (Some 20))) p v = Inl es \<Longrightarrow> es \<noteq> []"
  unfolding z_default_def by (erule z_array_Inl_nonempty [rotated]) (rule z_string_Inl_nonempty)

lemma mergeObject_Inl_nonempty:
  assumes m: "mergeObject t b l = Inl es"
    and t: "\<And>e. t = Inl e \<Longrightarrow> e \<noteq> []"
    and b: "\<And>e. b = Inl e \<Longrightarrow> e \<noteq> []"
    and l: "\<And>e. l = Inl e \<Longrightarrow> e \<noteq> []"
  shows "es \<noteq> []"
proof -
  from m have some: "isl t \<or> isl b \<or> isl l" and es: "es = failures t @ failures b @ failures l"
    by (auto simp: mergeObject_def split: if_splits)
  have "failures t \<noteq> [] \<or> failures b \<noteq> [] \<or> failures l \<noteq> []"
    using some failures_nonempty [of t, OF _ t] failures_nonempty [of b, OF _ b]
      failures_nonempty [of l, OF _ l]
    by blast
  with es show ?thesis by simp
qed

lemma issue_object_Inl_nonempty:
  assumes a: "issue_object q v = Inl es"
  shows "es \<noteq> []"
proof (cases v)
  case None
  with a show ?thesis by (auto simp: issue_object_def)
next
  case (Some c)
  show ?thesis
  proof (cases c)
    case (JObj kvs)
    with a Some have "mergeObject
            (z_string 10 None (q @ [Key ''title'']) (map_of kvs ''title''))
            (z_string 100 None (q @ [Key ''body'']) (map_of kvs ''body''))
            (z_default (JArr []) (z_array (z_string 2 (Some 20)))
               (q @ [Key ''labels'']) (map_of kvs ''labels'')) = Inl es"
      by (simp add: issue_object_def)
    then show ?thesis
      by (rule mergeObject_Inl_nonempty)
        (erule z_string_Inl_nonempty, erule z_string_Inl_nonempty, erule labels_Inl_nonempty)
  qed (use a Some in \<open>auto simp: issue_object_def\<close>)
qed

lemma safeParse_rejects:
  assumes "\<exists>c\<in>set cs. \<not> conforms c"
  shows "\<exists>es. es \<noteq> [] \<and> IssueSchema_safeParse (Some (JArr cs)) = Inl es"
proof -
  have "isl (z_array issue_object [] (Some (JArr cs))) \<longleftrightarrow> (\<exists>c\<in>set cs. \<not> conforms c)"
    by (rule z_array_isl) (rule issue_object_isl)
  with assms obtain es where es: "z_array issue_object [] (Some (JArr cs)) = Inl es"
    by (cases "z_array issue_object [] (Some (JArr cs))") auto
  then have "es \<noteq> []"
    by (rule z_array_Inl_nonempty [rotated]) (rule issue_object_Inl_nonempty)
  with es show ?thesis by (simp add: IssueSchema_safeParse_def)
qed

lemma length_parse_elements: "length (parse_elements element p i xs) = length xs"
  by (induction xs arbitrary: i) simp_all

lemma safeParse_accepts:
  assumes "\<forall>c\<in>set cs. conforms c"
  shows "\<exists>out. IssueSchema_safeParse (Some (JArr cs)) = Inr out \<and> length out = length cs"
proof -
  have "isl (z_array issue_object [] (Some (JArr cs))) \<longleftrightarrow> (\<exists>c\<in>set cs. \<not> conforms c)"
    by (rule z_array_isl) (rule issue_object_isl)
  with assms obtain out where out: "z_array issue_object [] (Some (JArr cs)) = Inr out"
    by (cases "z_array issue_object [] (Some (JArr cs))") auto
  then have "parse_elements issue_object [] 0 cs = map Inr out"
    by (simp add: z_array_def mergeArray_Inr_D)
  then have "length cs = length out"
    using length_parse_elements [of issue_object "[]" 0 cs] by simp
  with out show ?thesis by (simp add: IssueSchema_safeParse_def)
qed

lemma z_array_Inr_elements:
  assumes "z_array element p v = Inr vs" "y \<in> set vs"
  shows "\<exists>q x. element q (Some x) = Inr y"
proof -
  from assms(1) obtain xs where "mergeArray (parse_elements element p 0 xs) = Inr vs"
    by (auto simp: z_array_def split: option.splits json.splits)
  then have "parse_elements element p 0 xs = map Inr vs"
    by (rule mergeArray_Inr_D)
  with assms(2) have "Inr y \<in> set (parse_elements element p 0 xs)"
    by simp
  from parse_elements_set [OF this] show ?thesis by metis
qed

lemma mergeObject_Inr_D:
  "mergeObject t b l = Inr i \<Longrightarrow> t = Inr (title i) \<and> b = Inr (body i) \<and> l = Inr (labels i)"
  by (cases t; cases b; cases l) (auto simp: mergeObject_def)

lemma issue_object_well_formed:
  assumes "issue_object q v = Inr i"
  shows "well_formed i"
proof -
  from assms obtain kvs where
    m: "mergeObject
            (z_string 10 None (q @ [Key ''title'']) (map_of kvs ''title''))
            (z_string 100 None (q @ [Key ''body'']) (map_of kvs ''body''))
            (z_default (JArr []) (z_array (z_string 2 (Some 20)))
               (q @ [Key ''labels'']) (map_of kvs ''labels'')) = Inr i"
    by (auto simp: issue_object_def split: option.splits json.splits)
  note parts = mergeObject_Inr_D [OF m]
  from parts have t: "10 \<le> length (title i)" and b: "100 \<le> length (body i)"
    by (simp_all add: z_string_min_Inr)
  have "2 \<le> length l \<and> length l \<le> 20" if "l \<in> set (labels i)" for l
  proof -
    from parts have "z_array (z_string 2 (Some 20)) (q @ [Key ''labels''])
        (Some (case map_of kvs ''labels'' of None \<Rightarrow> JArr [] | Some x \<Rightarrow> x)) = Inr (labels i)"
      by (simp add: z_default_def)
    from z_array_Inr_elements [OF this that] show ?thesis
      by (auto simp: z_string_range_Inr)
  qed
  with t b show ?thesis by (simp add: well_formed_def)
qed

lemma safeParse_well_formed:
  assumes "IssueSchema_safeParse v = Inr out" "i \<in> set out"
  shows "well_formed i"
proof -
  from assms have "\<exists>q x. issue_object q (Some x) = Inr i"
    unfolding IssueSchema_safeParse_def by (rule z_array_Inr_elements)
  then show ?thesis by (auto dest: issue_object_well_formed)
qed

lemma reparse_labels:
  "\<forall>l\<in>set ls. 2 \<le> length l \<and> length l \<le> 20 \<Longrightarrow>
     parse_elements (z_string 2 (Some 20)) p k (map JStr ls) = map Inr ls"
  by (induction ls arbitrary: k) (simp_all add: z_string_def)

lemma reparse_issue:
  assumes "well_formed i"
  shows "issue_object q (Some (issue_json i)) = Inr i"
proof -
  have "z_default (JArr []) (z_array (z_string 2 (Some 20))) (q @ [Key ''labels''])
          (Some (JArr (map JStr (labels i)))) = Inr (labels i)"
    using assms by (simp add: z_default_def z_array_def reparse_labels mergeArray_map_Inr well_formed_def)
  moreover have "z_string 10 None (q @ [Key ''title'']) (Some (JStr (title i))) = Inr (title i)"
    using assms by (simp add: z_string_min_Inr well_formed_def)
  moreover have "z_string 100 None (q @ [Key ''body'']) (Some (JStr (body i))) = Inr (body i)"
    using assms by (simp add: z_string_min_Inr well_formed_def)
  ultimately show ?thesis
    by (simp add: issue_object_def issue_json_def mergeObject_def)
qed

lemma reparse_issues:
  "\<forall>i\<in>set out. well_formed i \<Longrightarrow>
     parse_elements issue_object p k (map issue_json out) = map Inr out"
  by (induction out arbitrary: k) (simp_all add: reparse_issue)

lemma safeParse_idempotent:
  assumes "IssueSchema_safeParse v = Inr out"
  shows "IssueSchema_safeParse (Some (JArr (map issue_json out))) = Inr out"
proof -
  have "\<forall>i\<in>set out. well_formed i"
    using assms by (auto intro: safeParse_well_formed)
  then show ?thesis
    by (simp add: IssueSchema_safeParse_def z_array_def reparse_issues mergeArray_map_Inr)
qed

text \<open>
  C4. Whenever the parsed document has an issue array in which at least one candidate
  does not meet the contract, the validator fails with one validation error, which
  carries at least one failure, and so returns no issue at all: a batch is never
  accepted in part.
\<close>

theorem C4_one_bad_candidate_rejects_the_batch:
  assumes "JSON_parse content = Some rawData"
    and "get_issues rawData = Inr (Some (JArr cs))"
    and "\<exists>c\<in>set cs. \<not> conforms c"
  shows "\<exists>es. es \<noteq> [] \<and> validateAIResponse JSON_parse content = Inl (ValidationFailed es)"
  using safeParse_rejects [OF assms(3)] assms(1,2)
  by (auto simp: validateAIResponse_def)

text \<open>
  C9. The validator is idempotent: when it has accepted a text and returned issues,
  a text that parses to a document whose \<open>issues\<close> property is that output (the
  output written back as JSON) is accepted too and gives the same issues.
\<close>

theorem C9_validator_idempotent:
  assumes "validateAIResponse JSON_parse content = Inr out"
    and "JSON_parse content' = Some doc"
    and "get_issues doc = Inr (Some (JArr (map issue_json out)))"
  shows "validateAIResponse JSON_parse content' = Inr out"
proof -
  from assms(1) obtain v where "IssueSchema_safeParse v = Inr out"
    by (auto simp: validateAIResponse_def split: option.splits sum.splits)
  from safeParse_idempotent [OF this] assms(2,3) show ?thesis
    by (simp add: validateAIResponse_def)
qed

lemma length_long_body: "length long_body = 100"
  by (simp add: long_body_def)

text \<open>The theorem at the specification's example: of two candidates, one has a title of 9 characters.\<close>

theorem C4_nine_character_title_witness:
  "sample_parse ''mixed'' = Some (JObj [(''issues'', JArr [good_candidate, short_title_candidate])]) \<and>
   get_issues (JObj [(''issues'', JArr [good_candidate, short_title_candidate])])
     = Inr (Some (JArr [good_candidate, short_title_candidate])) \<and>
   (\<exists>c\<in>set [good_candidate, short_title_candidate]. \<not> conforms c) \<and>
   (\<exists>es. es \<noteq> [] \<and> validateAIResponse sample_parse ''mixed'' = Inl (ValidationFailed es))"
proof -
  have p: "sample_parse ''mixed'' = Some (JObj [(''issues'', JArr [good_candidate, short_title_candidate])])"
    by (simp add: sample_parse_def)
  have g: "get_issues (JObj [(''issues'', JArr [good_candidate, short_title_candidate])])
     = Inr (Some (JArr [good_candidate, short_title_candidate]))"
    by (simp add: get_issues_def)
  have b: "\<exists>c\<in>set [good_candidate, short_title_candidate]. \<not> conforms c"
    by (simp add: short_title_candidate_def conforms_def is_text_of_min_def)
  from p g b C4_one_bad_candidate_rejects_the_batch [where JSON_parse = sample_parse, OF p g b] show ?thesis by blast
qed

lemma mixed_result:
  "validateAIResponse sample_parse ''mixed'' = Inl (ValidationFailed [zissue [Idx 1, Key ''title''] TooSmall])"
  by (simp add: validateAIResponse_def sample_parse_def get_issues_def IssueSchema_safeParse_def
      z_array_def issue_object_def good_candidate_def short_title_candidate_def z_string_def
      z_default_def mergeObject_def length_long_body)

lemma loose_result: "validateAIResponse sample_parse ''loose'' = Inr [loose_issue]"
  by (simp add: validateAIResponse_def sample_parse_def get_issues_def IssueSchema_safeParse_def
      z_array_def issue_object_def loose_candidate_def loose_issue_def z_string_def
      z_default_def mergeObject_def length_long_body)

text \<open>The theorem at an example: the first pass drops an unknown key and supplies the empty labels; the second pass, on the output written back, changes nothing.\<close>

theorem C9_reparse_witness:
  "validateAIResponse sample_parse ''loose'' = Inr [loose_issue] \<and>
   sample_parse ''again'' = Some (issues_document [loose_issue]) \<and>
   get_issues (issues_document [loose_issue]) = Inr (Some (JArr (map issue_json [loose_issue]))) \<and>
   validateAIResponse sample_parse ''again'' = Inr [loose_issue]"
proof -
  have p: "sample_parse ''again'' = Some (issues_document [loose_issue])"
    by (simp add: sample_parse_def)
  have g: "get_issues (issues_document [loose_issue]) = Inr (Some (JArr (map issue_json [loose_issue])))"
    by (simp add: get_issues_def issues_document_def)
  from loose_result p g C9_validator_idempotent [where JSON_parse = sample_parse, OF loose_result p g] show ?thesis by blast
qed

section \<open>Properties of the commit\<close>

lemma create_loop_all:
  "\<forall>k < length issues. api (length (calls tr) + k) (issue_request e a (issues ! k)) \<noteq> None \<Longrightarrow>
   \<exists>created. create_loop api e a issues acc tr =
     (Inr (acc @ created),
      tr\<lparr>calls := calls tr @ map (issue_request e a) issues,
         persisted := persisted tr @ map (issue_request e a) issues\<rparr>) \<and> length created = length issues"
proof (induction issues arbitrary: acc tr)
  case Nil
  then show ?case by simp
next
  case (Cons i rest)
  from Cons.prems have "api (length (calls tr)) (issue_request e a i) \<noteq> None"
    by fastforce
  then obtain data where d: "api (length (calls tr)) (issue_request e a i) = Some data" by auto
  let ?tr = "tr\<lparr>calls := calls tr @ [issue_request e a i], persisted := persisted tr @ [issue_request e a i]\<rparr>"
  have "\<forall>k < length rest. api (length (calls ?tr) + k) (issue_request e a (rest ! k)) \<noteq> None"
  proof (intro allI impI)
    fix k assume "k < length rest"
    then have "Suc k < length (i # rest)" by simp
    with Cons.prems have "api (length (calls tr) + Suc k) (issue_request e a ((i # rest) ! Suc k)) \<noteq> None"
      by blast
    then show "api (length (calls ?tr) + k) (issue_request e a (rest ! k)) \<noteq> None" by simp
  qed
  from Cons.IH [OF this, of "acc @ [data]"] obtain created where
    "create_loop api e a rest (acc @ [data]) ?tr =
       (Inr ((acc @ [data]) @ created),
        ?tr\<lparr>calls := calls ?tr @ map (issue_request e a) rest,
            persisted := persisted ?tr @ map (issue_request e a) rest\<rparr>)" "length created = length rest"
    by blast
  then show ?case using d
    by (intro exI [of _ "data # created"]) (simp add: octokit_issues_create_def)
qed

lemma create_loop_fails_at:
  assumes "k < length issues"
    and "\<forall>j < k. api (length (calls tr) + j) (issue_request e a (issues ! j)) \<noteq> None"
    and "api (length (calls tr) + k) (issue_request e a (issues ! k)) = None"
  shows "create_loop api e a issues acc tr =
     (Inl TrackerError,
      tr\<lparr>calls := calls tr @ map (issue_request e a) (take (Suc k) issues),
         persisted := persisted tr @ map (issue_request e a) (take k issues)\<rparr>)"
  using assms
proof (induction issues arbitrary: acc tr k)
  case Nil
  then show ?case by simp
next
  case (Cons i rest)
  show ?case
  proof (cases k)
    case 0
    with Cons.prems show ?thesis by (simp add: octokit_issues_create_def)
  next
    case (Suc m)
    from Cons.prems(2) Suc have "api (length (calls tr)) (issue_request e a i) \<noteq> None"
      by fastforce
    then obtain data where d: "api (length (calls tr)) (issue_request e a i) = Some data" by auto
    let ?tr = "tr\<lparr>calls := calls tr @ [issue_request e a i], persisted := persisted tr @ [issue_request e a i]\<rparr>"
    have m: "m < length rest" using Cons.prems(1) Suc by simp
    have ok: "\<forall>j < m. api (length (calls ?tr) + j) (issue_request e a (rest ! j)) \<noteq> None"
    proof (intro allI impI)
      fix j assume "j < m"
      then have "Suc j < k" using Suc by simp
      with Cons.prems(2) have "api (length (calls tr) + Suc j) (issue_request e a ((i # rest) ! Suc j)) \<noteq> None"
        by blast
      then show "api (length (calls ?tr) + j) (issue_request e a (rest ! j)) \<noteq> None" by simp
    qed
    have bad: "api (length (calls ?tr) + m) (issue_request e a (rest ! m)) = None"
      using Cons.prems(3) Suc by simp
    from Cons.IH [OF m ok bad, of "acc @ [data]"] d Suc show ?thesis
      by (simp add: octokit_issues_create_def)
  qed
qed

lemma create_loop_prefix:
  "create_loop api e a issues acc tr = (r, tr') \<Longrightarrow>
   \<exists>m \<le> length issues. persisted tr' = persisted tr @ map (issue_request e a) (take m issues) \<and>
      (\<not> isl r \<longrightarrow> m = length issues)"
proof (induction issues arbitrary: acc tr)
  case Nil
  then show ?case by auto
next
  case (Cons i rest)
  show ?case
  proof (cases "api (length (calls tr)) (issue_request e a i)")
    case None
    with Cons.prems have "r = Inl TrackerError" "persisted tr' = persisted tr"
      by (auto simp: octokit_issues_create_def)
    then show ?thesis by (intro exI [of _ 0]) simp
  next
    case (Some data)
    let ?tr = "tr\<lparr>calls := calls tr @ [issue_request e a i], persisted := persisted tr @ [issue_request e a i]\<rparr>"
    from Cons.prems Some have "create_loop api e a rest (acc @ [data]) ?tr = (r, tr')"
      by (simp add: octokit_issues_create_def)
    from Cons.IH [OF this] obtain m where
      "m \<le> length rest" "persisted tr' = persisted ?tr @ map (issue_request e a) (take m rest)"
      "\<not> isl r \<longrightarrow> m = length rest"
      by blast
    then show ?thesis by (intro exI [of _ "Suc m"]) simp
  qed
qed

text \<open>
  C5. \<open>createIssues\<close> calls the tracker once per issue, in input order. When no call
  fails, every issue of the batch is created, in that order. When the call for the
  issue at position \<open>k\<close> (counted from 0) is the first to fail, the error is the
  result, the tracker has received exactly the calls for the issues up to that one
  and none for a later issue, and exactly the issues before it have been added to the
  tracker and stay there.
\<close>

theorem C5_commit_stops_at_first_failure_without_rollback:
  "((\<forall>j < length issues. api (length (calls tr) + j) (issue_request e a (issues ! j)) \<noteq> None) \<longrightarrow>
      (\<exists>created tr'. createIssues api e issues a tr = (Inr created, tr') \<and>
         length created = length issues \<and>
         calls tr' = calls tr @ map (issue_request e a) issues \<and>
         persisted tr' = persisted tr @ map (issue_request e a) issues)) \<and>
   (k < length issues \<and>
    (\<forall>j < k. api (length (calls tr) + j) (issue_request e a (issues ! j)) \<noteq> None) \<and>
    api (length (calls tr) + k) (issue_request e a (issues ! k)) = None \<longrightarrow>
      (\<exists>tr'. createIssues api e issues a tr = (Inl TrackerError, tr') \<and>
         calls tr' = calls tr @ map (issue_request e a) (take (Suc k) issues) \<and>
         persisted tr' = persisted tr @ map (issue_request e a) (take k issues)))"
proof (intro conjI impI)
  assume "\<forall>j < length issues. api (length (calls tr) + j) (issue_request e a (issues ! j)) \<noteq> None"
  from create_loop_all [OF this, of "[]"]
  show "\<exists>created tr'. createIssues api e issues a tr = (Inr created, tr') \<and>
         length created = length issues \<and>
         calls tr' = calls tr @ map (issue_request e a) issues \<and>
         persisted tr' = persisted tr @ map (issue_request e a) issues"
    by (auto simp: createIssues_def)
next
  assume "k < length issues \<and>
    (\<forall>j < k. api (length (calls tr) + j) (issue_request e a (issues ! j)) \<noteq> None) \<and>
    api (length (calls tr) + k) (issue_request e a (issues ! k)) = None"
  then have "createIssues api e issues a tr = (Inl TrackerError,
      tr\<lparr>calls := calls tr @ map (issue_request e a) (take (Suc k) issues),
         persisted := persisted tr @ map (issue_request e a) (take k issues)\<rparr>)"
    unfolding createIssues_def by (intro create_loop_fails_at) simp_all
  then show "\<exists>tr'. createIssues api e issues a tr = (Inl TrackerError, tr') \<and>
         calls tr' = calls tr @ map (issue_request e a) (take (Suc k) issues) \<and>
         persisted tr' = persisted tr @ map (issue_request e a) (take k issues)"
    by simp
qed

text \<open>
  C10. Whatever the outcome of a commit, the issues it has added to the tracker are
  those of a prefix of the batch (the whole batch when it succeeds), and the body of
  each is the generated body of its issue, followed by a blank line and one markdown
  image link, on a line of its own, for every image reference of the session's
  bundle, in the bundle's order: the same list of links for every issue.
\<close>

theorem C10_every_created_body_carries_all_session_images:
  assumes "createIssues api e issues a tr = (r, tr')"
  shows "\<exists>m \<le> length issues.
     (\<not> isl r \<longrightarrow> m = length issues) \<and>
     length (persisted tr') = length (persisted tr) + m \<and>
     take (length (persisted tr)) (persisted tr') = persisted tr \<and>
     (\<forall>j < m. req_body (persisted tr' ! (length (persisted tr) + j)) =
        body (issues ! j) @ newline @ newline @ join newline (map image_link (asset_images a)))"
proof -
  from assms obtain m where m: "m \<le> length issues"
    "persisted tr' = persisted tr @ map (issue_request e a) (take m issues)"
    "\<not> isl r \<longrightarrow> m = length issues"
    unfolding createIssues_def by (blast dest: create_loop_prefix)
  have "req_body (persisted tr' ! (length (persisted tr) + j)) =
        body (issues ! j) @ newline @ newline @ join newline (map image_link (asset_images a))"
    if "j < m" for j
    using that m(1,2) by (simp add: nth_append issue_request_def)
  with m show ?thesis by (intro exI [of _ m]) simp
qed

lemma three_batch_second_fails:
  "createIssues second_call_fails sample_env three_issues two_images fresh_tracker =
     (Inl TrackerError,
      \<lparr>persisted = [issue_request sample_env two_images (sample_issue ''first issue'')],
       calls = [issue_request sample_env two_images (sample_issue ''first issue''),
                issue_request sample_env two_images (sample_issue ''second issue'')]\<rparr>)"
  by (simp add: createIssues_def three_issues_def second_call_fails_def fresh_tracker_def
      octokit_issues_create_def)

lemma three_batch_ok:
  "createIssues always_answers sample_env three_issues two_images fresh_tracker =
     (Inr [\<lparr>ci_number = 1, ci_html_url = ''https://tracker/issue'', ci_title = ''first issue''\<rparr>,
           \<lparr>ci_number = 2, ci_html_url = ''https://tracker/issue'', ci_title = ''second issue''\<rparr>,
           \<lparr>ci_number = 3, ci_html_url = ''https://tracker/issue'', ci_title = ''third issue''\<rparr>],
      \<lparr>persisted = map (issue_request sample_env two_images) three_issues,
       calls = map (issue_request sample_env two_images) three_issues\<rparr>)"
  by (simp add: createIssues_def three_issues_def always_answers_def fresh_tracker_def
      octokit_issues_create_def issue_request_def sample_issue_def)

text \<open>The theorem at the specification's example: of three issues the second creation fails, so one issue is created and two calls are made; with a tracker that answers every call, all three are created.\<close>

theorem C5_three_issue_batch_witness:
  "(1::nat) < length three_issues \<and>
   second_call_fails 0 (issue_request sample_env two_images (three_issues ! 0)) \<noteq> None \<and>
   second_call_fails 1 (issue_request sample_env two_images (three_issues ! 1)) = None \<and>
   (\<exists>tr'. createIssues second_call_fails sample_env three_issues two_images fresh_tracker
             = (Inl TrackerError, tr') \<and>
          length (calls tr') = 2 \<and>
          persisted tr' = [issue_request sample_env two_images (sample_issue ''first issue'')]) \<and>
   (\<exists>created tr'. createIssues always_answers sample_env three_issues two_images fresh_tracker
             = (Inr created, tr') \<and>
          length created = 3 \<and> length (persisted tr') = 3)"
proof -
  have all: "\<forall>j < length three_issues. always_answers (length (calls fresh_tracker) + j)
      (issue_request sample_env two_images (three_issues ! j)) \<noteq> None"
    by (simp add: always_answers_def)
  from C5_commit_stops_at_first_failure_without_rollback
         [of three_issues always_answers fresh_tracker sample_env two_images 0] all
  have good: "\<exists>created tr'. createIssues always_answers sample_env three_issues two_images fresh_tracker
             = (Inr created, tr') \<and>
          length created = 3 \<and> length (persisted tr') = 3"
    by (auto simp: three_issues_def fresh_tracker_def)
  have len: "(1::nat) < length three_issues"
    by (simp add: three_issues_def)
  have first: "second_call_fails 0 (issue_request sample_env two_images (three_issues ! 0)) \<noteq> None"
    by (simp add: second_call_fails_def)
  have second: "second_call_fails 1 (issue_request sample_env two_images (three_issues ! 1)) = None"
    by (simp add: second_call_fails_def)
  have before: "\<forall>j < 1. second_call_fails (length (calls fresh_tracker) + j)
      (issue_request sample_env two_images (three_issues ! j)) \<noteq> None"
    using first by (simp add: fresh_tracker_def)
  have at: "second_call_fails (length (calls fresh_tracker) + 1)
      (issue_request sample_env two_images (three_issues ! 1)) = None"
    using second by (simp add: fresh_tracker_def)
  from C5_commit_stops_at_first_failure_without_rollback [of three_issues second_call_fails fresh_tracker sample_env two_images 1] len before at
  obtain tr' where
    "createIssues second_call_fails sample_env three_issues two_images fresh_tracker
       = (Inl TrackerError, tr')"
    "calls tr' = calls fresh_tracker @ map (issue_request sample_env two_images) (take (Suc 1) three_issues)"
    "persisted tr' = persisted fresh_tracker @ map (issue_request sample_env two_images) (take 1 three_issues)"
    by blast
  then have "createIssues second_call_fails sample_env three_issues two_images fresh_tracker
             = (Inl TrackerError, tr') \<and>
          length (calls tr') = 2 \<and>
          persisted tr' = [issue_request sample_env two_images (sample_issue ''first issue'')]"
    by (simp add: three_issues_def fresh_tracker_def)
  with len first second good show ?thesis by blast
qed

lemma join_two: "join sep [a, b] = a @ sep @ b"
  by simp

text \<open>The theorem at an example: three issues and a bundle with two images; each body ends with the same two links.\<close>

theorem C10_three_issue_batch_witness:
  "\<exists>created tr'. createIssues always_answers sample_env three_issues two_images fresh_tracker
        = (Inr created, tr') \<and>
     map req_body (persisted tr') =
       [''Body of first issue'' @ newline @ newline @ ''![image](u1)'' @ newline @ ''![image](u2)'',
        ''Body of second issue'' @ newline @ newline @ ''![image](u1)'' @ newline @ ''![image](u2)'',
        ''Body of third issue'' @ newline @ newline @ ''![image](u1)'' @ newline @ ''![image](u2)'']"
proof -
  note run = three_batch_ok
  from C10_every_created_body_carries_all_session_images [OF run] obtain m where m: "m \<le> length three_issues"
    "m = length three_issues"
    "\<forall>j < m. req_body (map (issue_request sample_env two_images) three_issues ! (length (persisted fresh_tracker) + j)) =
        body (three_issues ! j) @ newline @ newline @ join newline (map image_link (asset_images two_images))"
    by auto
  have l: "length (map (issue_request sample_env two_images) three_issues) = 3"
    by (simp add: three_issues_def)
  from m have b: "req_body (map (issue_request sample_env two_images) three_issues ! j) =
        body (three_issues ! j) @ newline @ newline @ join newline (map image_link (asset_images two_images))"
    if "j < 3" for j
    using that by (simp add: fresh_tracker_def three_issues_def)
  have "map req_body (map (issue_request sample_env two_images) three_issues) =
       [''Body of first issue'' @ newline @ newline @ ''![image](u1)'' @ newline @ ''![image](u2)'',
        ''Body of second issue'' @ newline @ newline @ ''![image](u1)'' @ newline @ ''![image](u2)'',
        ''Body of third issue'' @ newline @ newline @ ''![image](u1)'' @ newline @ ''![image](u2)'']"
    using b [of 0] b [of 1] b [of 2]
    by (simp add: three_issues_def two_images_def sample_issue_def image_link_def)
  with run show ?thesis by simp
qed

section \<open>Properties of image processing\<close>

lemma set_completion_order: "set (completion_order order n) = {0..<n}"
  by (auto simp: completion_order_def)

lemma image_callback_accepted:
  "\<forall>n. up n \<Longrightarrow> \<exists>ch'. image_callback fetch encode up url ch = (Inr (part_of fetch encode url), ch')"
  by (simp add: image_callback_def part_of_def send_def split: sum.splits)

lemma run_callbacks_accepted:
  "\<forall>n. up n \<Longrightarrow>
   \<exists>ch'. run_callbacks fetch encode up images is ch =
           (map (\<lambda>i. (i, Inr (part_of fetch encode (images ! i)))) is, ch')"
proof (induction "is" arbitrary: ch)
  case Nil
  then show ?case by simp
next
  case (Cons i rest)
  from image_callback_accepted [OF Cons.prems] obtain c where
    c: "image_callback fetch encode up (images ! i) ch = (Inr (part_of fetch encode (images ! i)), c)"
    by blast
  from Cons.IH [OF Cons.prems, of c] obtain c' where
    "run_callbacks fetch encode up images rest c =
           (map (\<lambda>i. (i, Inr (part_of fetch encode (images ! i)))) rest, c')" by blast
  with c show ?case by simp
qed

lemma no_rejection:
  "List.map_filter (\<lambda>(i, r). case r of Inl e \<Rightarrow> Some e | Inr v \<Rightarrow> None)
     (map (\<lambda>i. (i, Inr (f i))) is) = []"
  by (induction "is") (simp_all add: map_filter_simps)

lemma results_in_order:
  fixes f :: "nat \<Rightarrow> 'b"
  assumes "set ks \<subseteq> set is"
  shows "List.map_filter
       (\<lambda>i. case map_of (map (\<lambda>i. (i, Inr (f i) :: js_error + 'b)) is) i of
               Some (Inr v) \<Rightarrow> Some v | _ \<Rightarrow> None) ks
     = map f ks"
  using assms
proof (induction ks)
  case Nil
  show ?case by (simp add: map_filter_simps)
next
  case (Cons k ks)
  then have "k \<in> set is" by simp
  then have "map_of (map (\<lambda>i. (i, Inr (f i) :: js_error + 'b)) is) k = Some (Inr (f k))"
    by (induction "is") auto
  with Cons show ?case by (simp add: map_filter_simps)
qed

lemma map_filter_parts:
  "List.map_filter (\<lambda>r. r) (map (\<lambda>i. g (images ! i)) [0..<length images]) = List.map_filter g images"
proof -
  have "map (\<lambda>i. g (images ! i)) [0..<length images] = map g images"
    by (simp add: map_equality_iff)
  then show ?thesis by (simp add: List.map_filter_def filter_map comp_def)
qed

text \<open>
  When the chat gateway accepts every call, \<open>processImages\<close> does what the
  specification says, in whatever order the fetches are done: it returns the parts of
  the references that could be fetched, and the generation submits them.
\<close>

lemma processImages_when_gateway_accepts:
  assumes "\<forall>n. up n"
  shows "\<exists>ch'. processImages fetch encode up order images ch =
           (Inr (fetched_images fetch encode images), ch')"
proof -
  let ?is = "completion_order order (length images)"
  from run_callbacks_accepted [OF assms, of fetch encode images ?is ch] obtain c where
    c: "run_callbacks fetch encode up images ?is ch =
           (map (\<lambda>i. (i, Inr (part_of fetch encode (images ! i)))) ?is, c)" by blast
  have sub: "set [0..<length images] \<subseteq> set ?is"
    by (simp add: set_completion_order)
  have "promise_all_images fetch encode up order images ch =
          (Inr (map (\<lambda>i. part_of fetch encode (images ! i)) [0..<length images]), c)"
    unfolding promise_all_images_def c
    by (simp add: no_rejection results_in_order [OF sub])
  then show ?thesis
    by (simp add: processImages_def map_filter_parts fetched_images_def)
qed

lemma generation_when_gateway_accepts:
  assumes "\<forall>n. sv_up sv n"
  shows "\<exists>ch'. generateIssueContent sv a ch =
     (case sv_openai sv (TextPart (join (newline @ newline) (asset_text a)) #
                         fetched_images (sv_fetch sv) (sv_base64 sv) (asset_images a)) of
        None \<Rightarrow> (Inl CompletionError, ch')
      | Some stream \<Rightarrow> handleAIStream (sv_up sv) (sv_JSON_parse sv) stream ch')"
proof -
  from processImages_when_gateway_accepts [OF assms] obtain c where
    "processImages (sv_fetch sv) (sv_base64 sv) (sv_up sv) (sv_order sv (asset_images a))
       (asset_images a) ch =
     (Inr (fetched_images (sv_fetch sv) (sv_base64 sv) (asset_images a)), c)"
    by blast
  then show ?thesis
    by (intro exI [of _ c]) (simp add: generateIssueContent_def buildMessages_def)
qed


text \<open>
  The other callbacks run to their end after a rejection: of two references that
  cannot be fetched, the second still gets its warning when the first one's is refused.
\<close>

lemma callbacks_go_on_after_a_rejection:
  "processImages sample_fetch sample_base64 (\<lambda>n. n \<noteq> 0) [] [''u2'', ''u3''] empty_channel =
     (Inl TransportError,
      \<lparr>posts = [\<lparr>post_content = SkippingImage (FetchFailed ''unreachable''), post_components = []\<rparr>],
       attempts = 2, archived = False\<rparr>)"
  by code_simp

text \<open>The warnings go out in the order in which the fetches fail.\<close>

lemma warnings_in_completion_order:
  "processImages sample_fetch sample_base64 (\<lambda>n. True) [1, 0] [''u2'', ''u3''] empty_channel =
     (Inr [],
      \<lparr>posts = [\<lparr>post_content = SkippingImage (FetchFailed ''unreachable''), post_components = []\<rparr>,
                \<lparr>post_content = SkippingImage (HttpStatus 404), post_components = []\<rparr>],
       attempts = 2, archived = False\<rparr>)"
  by code_simp

section \<open>Properties of the listing\<close>

lemma keepItem_iff: "keepItem (doneOption sf) item \<longleftrightarrow> \<not> lacks_status item \<and> \<not> status_is_done sf item"
  by (auto simp: keepItem_def lacks_status_def status_is_done_def status_of_def truthy_def
      name_of_option_def nullable_def split: option.splits)

lemma extend_run_append: "extend_run cmp d p xs = (front, rest) \<Longrightarrow> front @ rest = xs"
  by (induction xs arbitrary: p front rest) (auto simp: Let_def split: if_splits prod.splits)

lemma mset_count_and_make_run:
  "count_and_make_run cmp xs = (front, rest) \<Longrightarrow> mset front + mset rest = mset xs"
proof (induction cmp xs rule: count_and_make_run.induct)
  case (3 cmp h l xs)
  obtain r t where e: "extend_run cmp (cmp l h < 0) l xs = (r, t)" by force
  from extend_run_append [OF e] have "mset r + mset t = mset xs"
    by (metis mset_append)
  with 3 e show ?case by (auto simp: Let_def split: if_splits)
qed auto

lemma mset_binary_insert: "mset (binary_insert cmp workArray pivot) = add_mset pivot (mset workArray)"
proof -
  have "mset (take k workArray) + mset (drop k workArray) = mset workArray" for k
    by (metis append_take_drop_id mset_append)
  then show ?thesis by (simp add: binary_insert_def Let_def)
qed

lemma mset_foldl_insert: "mset (foldl (binary_insert cmp) acc xs) = mset acc + mset xs"
  by (induction xs arbitrary: acc) (simp_all add: mset_binary_insert)

lemma mset_array_sort: "mset (array_sort cmp xs) = mset xs"
proof -
  obtain front rest where c: "count_and_make_run cmp xs = (front, rest)" by force
  with mset_count_and_make_run [OF c] show ?thesis
    by (simp add: array_sort_def mset_foldl_insert)
qed

lemma position_of_first_class:
  assumes "\<And>b. cmp pivot b < 0"
  shows "binary_position cmp pivot xs left right = left"
  using assms
proof (induction cmp pivot xs left right rule: binary_position.induct)
  case (1 cmp pivot xs left right)
  show ?case
  proof (cases "left < right")
    case True
    with 1 show ?thesis
      by (subst binary_position.simps) (simp add: Let_def)
  next
    case False
    then show ?thesis by (subst binary_position.simps) simp
  qed
qed

lemma position_of_second_class:
  assumes "\<And>b. \<not> cmp pivot b < 0" "left \<le> right"
  shows "binary_position cmp pivot xs left right = right"
  using assms
proof (induction cmp pivot xs left right rule: binary_position.induct)
  case (1 cmp pivot xs left right)
  show ?case
  proof (cases "left < right")
    case True
    then have "left + (right - left) div 2 + 1 \<le> right" by linarith
    with 1 True show ?thesis
      by (subst binary_position.simps) (simp add: Let_def)
  next
    case False
    with 1(4) show ?thesis by (subst binary_position.simps) simp
  qed
qed

lemma binary_insert_two_classes:
  assumes cmp: "\<And>a b. cmp a b = (if P a then - 1 else if P b then 1 else 0)"
  shows "binary_insert cmp workArray pivot = (if P pivot then pivot # workArray else workArray @ [pivot])"
proof (cases "P pivot")
  case True
  then have "binary_position cmp pivot workArray 0 (length workArray) = 0"
    by (intro position_of_first_class) (simp add: cmp)
  with True show ?thesis by (simp add: binary_insert_def)
next
  case False
  then have "binary_position cmp pivot workArray 0 (length workArray) = length workArray"
    by (intro position_of_second_class) (simp_all add: cmp)
  with False show ?thesis by (simp add: binary_insert_def)
qed

lemma foldl_insert_two_classes:
  assumes cmp: "\<And>a b. cmp a b = (if P a then - 1 else if P b then 1 else 0)"
  shows "foldl (binary_insert cmp) acc xs = rev (filter P xs) @ acc @ filter (\<lambda>x. \<not> P x) xs"
  by (induction xs arbitrary: acc) (simp_all add: binary_insert_two_classes [OF cmp])

lemma extend_run_descending:
  assumes cmp: "\<And>a b. cmp a b = (if P a then - 1 else if P b then 1 else 0)"
  shows "extend_run cmp True p xs = (takeWhile P xs, dropWhile P xs)"
  by (induction xs arbitrary: p) (simp_all add: cmp)

lemma extend_run_ascending:
  assumes cmp: "\<And>a b. cmp a b = (if P a then - 1 else if P b then 1 else 0)"
  shows "extend_run cmp False p xs = (takeWhile (\<lambda>x. \<not> P x) xs, dropWhile (\<lambda>x. \<not> P x) xs)"
  by (induction xs arbitrary: p) (simp_all add: cmp)

lemma filter_takeWhile_same: "filter P (takeWhile P xs) = takeWhile P xs"
  by (induction xs) simp_all

lemma filter_takeWhile_other: "filter (\<lambda>x. \<not> P x) (takeWhile P xs) = []"
  by (induction xs) simp_all

lemma filter_takeWhile_not: "filter P (takeWhile (\<lambda>x. \<not> P x) xs) = []"
  by (induction xs) simp_all

lemma filter_takeWhile_not_same: "filter (\<lambda>x. \<not> P x) (takeWhile (\<lambda>x. \<not> P x) xs) = takeWhile (\<lambda>x. \<not> P x) xs"
  by (induction xs) simp_all

lemma first_run_two_classes:
  assumes cmp: "\<And>a b. cmp a b = (if P a then - 1 else if P b then 1 else 0)"
  shows "\<exists>pre rest. count_and_make_run cmp xs = (rev (filter P pre) @ filter (\<lambda>x. \<not> P x) pre, rest) \<and>
           xs = pre @ rest"
proof (cases xs)
  case Nil
  then show ?thesis by simp
next
  case (Cons h tl)
  show ?thesis
  proof (cases tl)
    case Nil
    with Cons show ?thesis by (intro exI [of _ "[h]"] exI [of _ "[]"]) simp
  next
    case (Cons l ys)
    show ?thesis
    proof (cases "P l")
      case True
      let ?pre = "h # l # takeWhile P ys"
      have "count_and_make_run cmp xs = (rev ?pre, dropWhile P ys)"
        using True \<open>xs = h # tl\<close> Cons by (simp add: cmp extend_run_descending [OF cmp])
      moreover have "rev ?pre = rev (filter P ?pre) @ filter (\<lambda>x. \<not> P x) ?pre"
        using True by (simp add: filter_takeWhile_same filter_takeWhile_other)
      moreover have "xs = ?pre @ dropWhile P ys"
        using \<open>xs = h # tl\<close> Cons by simp
      ultimately show ?thesis by metis
    next
      case False
      let ?pre = "h # l # takeWhile (\<lambda>x. \<not> P x) ys"
      have "count_and_make_run cmp xs = (?pre, dropWhile (\<lambda>x. \<not> P x) ys)"
        using False \<open>xs = h # tl\<close> Cons by (simp add: cmp extend_run_ascending [OF cmp])
      moreover have "?pre = rev (filter P ?pre) @ filter (\<lambda>x. \<not> P x) ?pre"
        using False by (simp add: filter_takeWhile_not filter_takeWhile_not_same)
      moreover have "xs = ?pre @ dropWhile (\<lambda>x. \<not> P x) ys"
        using \<open>xs = h # tl\<close> Cons by simp
      ultimately show ?thesis by metis
    qed
  qed
qed

text \<open>
  A comparison function of the shape of the source's callback makes the engine put
  the elements that satisfy the test first, in reverse input order, and the others
  after them, in input order.
\<close>

lemma array_sort_two_classes:
  assumes cmp: "\<And>a b. cmp a b = (if P a then - 1 else if P b then 1 else 0)"
  shows "array_sort cmp xs = rev (filter P xs) @ filter (\<lambda>x. \<not> P x) xs"
proof -
  from first_run_two_classes [where cmp = cmp and P = P and xs = xs, OF cmp] obtain pre rest where
    first: "count_and_make_run cmp xs = (rev (filter P pre) @ filter (\<lambda>x. \<not> P x) pre, rest)"
    and xs: "xs = pre @ rest"
    by blast
  have "array_sort cmp xs =
          foldl (binary_insert cmp) (rev (filter P pre) @ filter (\<lambda>x. \<not> P x) pre) rest"
    by (simp add: array_sort_def first)
  also have "\<dots> = rev (filter P rest) @ (rev (filter P pre) @ filter (\<lambda>x. \<not> P x) pre) @
                     filter (\<lambda>x. \<not> P x) rest"
    by (rule foldl_insert_two_classes [where cmp = cmp and P = P, OF cmp])
  finally show ?thesis by (simp add: xs)
qed

lemma kept_has_value: "keepItem d x \<Longrightarrow> fieldValueByName x \<noteq> None"
  by (auto simp: keepItem_def status_of_def truthy_def split: option.splits)

text \<open>
  On an item that has a status value, the test of the sort callback is the test
  "the item's option is the Backlog option": a null \<open>optionId\<close> is never \<open>===\<close> to the
  \<open>undefined\<close> that a missing Backlog option gives.
\<close>

lemma backlog_test:
  "fieldValueByName x \<noteq> None \<Longrightarrow>
     optionId_of x = id_of_option (backlogOption sf) \<longleftrightarrow> status_is_backlog sf x"
  by (auto simp: optionId_of_def id_of_option_def status_is_backlog_def nullable_def
      split: option.splits)

lemma sorted_kept:
  "array_sort (compareItems (backlogOption sf)) (filter (keepItem d) items) =
     rev (filter (status_is_backlog sf) (filter (keepItem d) items)) @
     filter (\<lambda>x. \<not> status_is_backlog sf x) (filter (keepItem d) items)"
proof -
  let ?P = "\<lambda>x. optionId_of x = id_of_option (backlogOption sf)"
  let ?kept = "filter (keepItem d) items"
  have "array_sort (compareItems (backlogOption sf)) ?kept =
          rev (filter ?P ?kept) @ filter (\<lambda>x. \<not> ?P x) ?kept"
    by (rule array_sort_two_classes [where P = ?P]) (simp add: compareItems_def)
  moreover have "filter ?P ?kept = filter (status_is_backlog sf) ?kept"
    by (rule filter_cong) (auto simp: backlog_test kept_has_value)
  moreover have "filter (\<lambda>x. \<not> ?P x) ?kept = filter (\<lambda>x. \<not> status_is_backlog sf x) ?kept"
    by (rule filter_cong) (auto simp: backlog_test kept_has_value)
  ultimately show ?thesis by simp
qed

lemma before_in_append:
  assumes "i < length (bs @ ns)" "j < length (bs @ ns)"
    and "\<forall>b\<in>set bs. P b" "\<forall>n\<in>set ns. \<not> P n"
    and "P ((bs @ ns) ! i)" "\<not> P ((bs @ ns) ! j)"
  shows "i < j"
proof -
  have "i < length bs" using assms by (auto simp: nth_append split: if_splits)
  moreover have "\<not> j < length bs" using assms by (auto simp: nth_append split: if_splits)
  ultimately show ?thesis by simp
qed

lemmas board_defs =
  board_items_def board_field_def item_backlog_def item_progress_def item_done_def
  item_none_def mk_item_def

lemma board_listing:
  "processProjectItems board_items (Some board_field) = Inr [item_backlog, item_progress]"
  by code_simp

text \<open>Two Backlog items come out in reverse input order, as they do from the engine.\<close>

lemma two_backlog_items:
  "processProjectItems [item_backlog, item_progress, item_backlog2] (Some board_field) =
     Inr [item_backlog2, item_backlog, item_progress]"
  by code_simp

text \<open>
  C1, as the code has it. The specification says that an item lacking a status is kept;
  the filter callback is \<open>status && status !== doneOption?.name\<close>, so an item whose
  status is missing, null or empty is dropped together with the Done items. The listing
  returns a result for every item list (given a status field), and that result holds,
  with multiplicity, exactly the items that have a status and whose status is not the
  name of the Done option.
\<close>

theorem C1_listing_keeps_exactly_the_open_items_with_a_status:
  "\<exists>out. processProjectItems items (Some sf) = Inr out \<and>
     mset out = {#x \<in># mset items. \<not> lacks_status x \<and> \<not> status_is_done sf x#}"
proof -
  have "filter (keepItem (doneOption sf)) items =
        filter (\<lambda>x. \<not> lacks_status x \<and> \<not> status_is_done sf x) items"
    by (rule filter_cong) (simp_all add: keepItem_iff)
  then show ?thesis
    by (simp add: processProjectItems_def mset_array_sort)
qed

text \<open>The theorem at the board of the specification's example.\<close>

theorem C1_listing_witness:
  "\<exists>out. processProjectItems board_items (Some board_field) = Inr out \<and>
     mset out = {#item_progress, item_backlog#}"
  using C1_listing_keeps_exactly_the_open_items_with_a_status [of board_items board_field]
  by (simp add: board_defs lacks_status_def status_is_done_def doneOption_def)

text \<open>
  C1 as the specification states it fails on the board of its own example: the item
  without a status is in the input, and the listing returns the Backlog and the
  In Progress item only.
\<close>

theorem C1_item_without_status_is_dropped:
  "lacks_status item_none \<and> item_none \<in> set board_items \<and>
   processProjectItems board_items (Some board_field) = Inr [item_backlog, item_progress] \<and>
   item_none \<notin> set [item_backlog, item_progress]"
  by code_simp

text \<open>
  C8. In the listing's result every item whose option is the Backlog option stands
  before every item whose option is not, and the items that are not Backlog items are
  in the order the filter left them in.
\<close>

theorem C8_backlog_items_first_others_in_input_order:
  "\<exists>out. processProjectItems items (Some sf) = Inr out \<and>
     (\<forall>i j. i < length out \<and> j < length out \<and> status_is_backlog sf (out ! i) \<and>
        \<not> status_is_backlog sf (out ! j) \<longrightarrow> i < j) \<and>
     filter (\<lambda>x. \<not> status_is_backlog sf x) out =
       filter (\<lambda>x. \<not> status_is_backlog sf x) (filter (keepItem (doneOption sf)) items)"
proof -
  let ?kept = "filter (keepItem (doneOption sf)) items"
  let ?bs = "rev (filter (status_is_backlog sf) ?kept)"
  let ?ns = "filter (\<lambda>x. \<not> status_is_backlog sf x) ?kept"
  have out: "processProjectItems items (Some sf) = Inr (?bs @ ?ns)"
    by (simp add: processProjectItems_def sorted_kept)
  have order: "i < j" if "i < length (?bs @ ?ns)" "j < length (?bs @ ?ns)"
      "status_is_backlog sf ((?bs @ ?ns) ! i)" "\<not> status_is_backlog sf ((?bs @ ?ns) ! j)" for i j
    using that(1,2) _ _ that(3,4) by (rule before_in_append) simp_all
  have rest: "filter (\<lambda>x. \<not> status_is_backlog sf x) (?bs @ ?ns) = ?ns"
    by simp
  from out order rest show ?thesis by blast
qed

text \<open>The theorem at the board of the specification's example: the Backlog item, last in the input, comes first.\<close>

theorem C8_backlog_first_witness:
  "processProjectItems board_items (Some board_field) = Inr [item_backlog, item_progress] \<and>
   status_is_backlog board_field ([item_backlog, item_progress] ! 0) \<and>
   \<not> status_is_backlog board_field ([item_backlog, item_progress] ! 1) \<and> (0::nat) < 1 \<and>
   filter (\<lambda>x. \<not> status_is_backlog board_field x) [item_backlog, item_progress] = [item_progress]"
  using C8_backlog_items_first_others_in_input_order [of board_items board_field]
  by (simp add: board_listing)
   (simp add: board_defs status_is_backlog_def backlogOption_def)

section \<open>Properties of the session\<close>

lemma step_bot_message: "collecting s \<Longrightarrow> author_bot m \<Longrightarrow> step sv s (Message m) = s"
  by simp

lemma on_collect_author:
  "on_collect sv s (m\<lparr>author_id := u\<rparr>) = on_collect sv s m"
  by (simp add: on_collect_def split: prod.splits bool.splits)

text \<open>
  C2. The specification says that during the collection the messages of bots and of
  users other than the initiator are ignored. The filter of the message collector
  is \<open>!m.author.bot\<close> and its handler tests \<open>msg.author.bot\<close> again; unlike the button
  collector and the edit collector of the same session, which both compare the user
  with \<open>interaction.user.id\<close>, it never looks at who the author is. A bot's message is
  ignored (lemma \<open>step_bot_message\<close>), but every other message is handled in the same
  way whoever wrote it (lemma \<open>on_collect_author\<close>). Here the session that alice
  started in a thread of a server channel is evaluated: the message of bob, who is
  not a bot, adds its text and its attachment to the bundle.
\<close>

theorem C2_message_of_another_user_is_collected:
  "\<not> isDM alice_preview \<and> collecting alice_preview \<and> initiator alice_preview = ''alice'' \<and>
   author_id bob_message = ''bob'' \<and> \<not> author_bot bob_message \<and>
   asset_text (collected alice_preview) = [] \<and> asset_images (collected alice_preview) = [] \<and>
   asset_text (collected (step sample_services alice_preview (Message bob_message))) = [''hello''] \<and>
   asset_images (collected (step sample_services alice_preview (Message bob_message)))
     = [''https://cdn/shot.png'']"
  by code_simp

lemma sample_review_value:
  "sample_review =
     \<lparr>initiator = ''alice'', isDM = False, wantsPreview = True,
      collected = \<lparr>asset_text = [''the dashboard is slow''], asset_images = [],
                   asset_generatedIssues = Some [loose_issue]\<rparr>,
      chan = \<lparr>posts = [\<lparr>post_content = AddedText ''the dashboard is slow'', post_components = []\<rparr>,
                       \<lparr>post_content = GenerationComplete ''loose'', post_components = []\<rparr>,
                       \<lparr>post_content = ReviewTheseIssues [loose_issue],
                        post_components = [''confirm_issues'', ''cancel_issues'']\<rparr>],
              attempts = 4, archived = False\<rparr>,
      trk = fresh_tracker, collecting = False, generated = [loose_issue],
      previewMessage = Some 2, reviewing = True, edit_windows = 0\<rparr>"
  by code_simp

lemma start_review_offers_row:
  "sv_up sv (attempts (chan s)) \<Longrightarrow>
     reviewing (start_review sv s generatedIssues) \<and>
     offered_decisions (start_review sv s generatedIssues) = row"
  by (simp add: start_review_def offered_decisions_def send_def tick_def Let_def)

text \<open>
  C3. The specification's review offers three decisions: confirm, edit and cancel. In
  the code the preview message carries the two buttons of \<open>row\<close>, confirm and cancel;
  the row with the edit button is built and never sent, so the \<open>edit\<close> case of the
  handler cannot be reached from the message. Here the review of the example session
  is evaluated: it waits for a decision and offers these two.
\<close>

theorem C3_review_offers_confirm_and_cancel_only:
  "awaiting_decision sample_review \<and>
   offered_decisions sample_review = [''confirm_issues'', ''cancel_issues''] \<and>
   ''edit'' \<notin> set (offered_decisions sample_review)"
  by (simp add: sample_review_value awaiting_decision_def offered_decisions_def)








text \<open>
  In the example session the initiator's confirmation, pressed in time, does commit;
  after the timeout the same press changes nothing, as the theorem says.
\<close>

lemma confirm_in_time_commits:
  "length (calls (trk (run sample_services sample_review [ButtonPress ''alice'' ''confirm_issues'']))) = 1"
  by code_simp


end
